theory Spec2Isabelle
  imports Main "HOL-Library.Char_ord" "HOL-Library.List_Lexorder" "HOL-Library.Multiset"
    "HOL-Library.Word"
begin

section \<open>JavaScript values\<close>

text \<open>
  The handshake credential, the manifest entries and the peer messages are JavaScript
  values. Only the shapes the modelled code inspects are represented: a property that an
  object does not have reads as \<open>JUndefined\<close>; numbers are the integers the code
  produces (byte counts, millisecond clocks).
\<close>

datatype jsval =
    JUndefined | JNull | JBool bool | JNum int | JStr string
  | JArr "jsval list" | JObj "(string \<times> jsval) list"

text \<open>\<open>!v\<close> is \<open>\<not> truthy v\<close>.\<close>

fun truthy :: "jsval \<Rightarrow> bool" where
  "truthy JUndefined = False"
| "truthy JNull = False"
| "truthy (JBool b) = b"
| "truthy (JNum n) = (n \<noteq> 0)"
| "truthy (JStr s) = (s \<noteq> [])"
| "truthy (JArr xs) = True"
| "truthy (JObj kvs) = True"

text \<open>\<open>a || b\<close> on values.\<close>

definition js_or :: "jsval \<Rightarrow> jsval \<Rightarrow> jsval" where
  "js_or a b = (if truthy a then a else b)"

text \<open>The property names of an object, in order, and the value of one property.\<close>

fun obj_keys :: "jsval \<Rightarrow> string list" where
  "obj_keys (JObj kvs) = map fst kvs"
| "obj_keys _ = []"

fun get_prop :: "jsval \<Rightarrow> string \<Rightarrow> jsval" where
  "get_prop (JObj kvs) k = (case map_of kvs k of None \<Rightarrow> JUndefined | Some v \<Rightarrow> v)"
| "get_prop _ k = JUndefined"

text \<open>
  \<open>JSON.stringify\<close> followed by the receiver's \<open>JSON.parse\<close>: a property whose value is
  \<open>undefined\<close> is left out, in the object and in the objects of an array it holds.
\<close>

fun defined_props :: "jsval \<Rightarrow> jsval" where
  "defined_props (JObj kvs) = JObj (filter (\<lambda>kv. snd kv \<noteq> JUndefined) kvs)"
| "defined_props v = v"

fun json_roundtrip :: "jsval \<Rightarrow> jsval" where
  "json_roundtrip (JObj kvs) =
     JObj (map (\<lambda>kv. (fst kv, case snd kv of JArr xs \<Rightarrow> JArr (map defined_props xs) | v \<Rightarrow> v))
            (filter (\<lambda>kv. snd kv \<noteq> JUndefined) kvs))"
| "json_roundtrip v = v"

section \<open>Device tokens: \<open>device-token-manager-server.js\<close>\<close>

record device_token =
  token :: string
  deviceId :: string
  deviceName :: string
  userId :: string
  userEmail :: string
  expiresAt :: int
  active :: bool

text \<open>
  Every rejection is an \<open>Error\<close> whose message is one of these codes;
  \<open>RATE_LIMIT_EXCEEDED n\<close> is the message \<open>RATE_LIMIT_EXCEEDED:n\<close>.
\<close>

datatype reason =
    RATE_LIMIT_EXCEEDED int
  | INVALID_TOKEN
  | INVALID_FORMAT
  | TOKEN_NOT_FOUND
  | TOKEN_REVOKED
  | TOKEN_EXPIRED

datatype validation = Invalid reason | Valid device_token

text \<open>
  What \<open>fs.readFileSync\<close> followed by \<open>JSON.parse\<close> yields for
  \<open>device-tokens.json\<close>: an exception, or the parsed object, whose \<open>tokens\<close>
  property may be absent.
\<close>

datatype token_file = Unreadable | Parsed "device_token list option"

record token_manager =
  cache :: "device_token list option"
  cacheTimestamp :: int

definition CACHE_TTL :: int where
  "CACHE_TTL = 5000"

text \<open>\<open>readTokens\<close>; \<open>now\<close> is \<open>Date.now()\<close>. An array, even an empty one, is truthy.\<close>

definition readTokens ::
  "int \<Rightarrow> token_file \<Rightarrow> token_manager \<Rightarrow> device_token list \<times> token_manager" where
  "readTokens now file tm =
     (case cache tm of
        Some c \<Rightarrow>
          if now - cacheTimestamp tm < CACHE_TTL then (c, tm)
          else (case file of
                  Unreadable \<Rightarrow> ([], tm)
                | Parsed ts \<Rightarrow>
                    (let c' = (case ts of None \<Rightarrow> [] | Some l \<Rightarrow> l)
                     in (c', tm\<lparr>cache := Some c', cacheTimestamp := now\<rparr>)))
      | None \<Rightarrow>
          (case file of
             Unreadable \<Rightarrow> ([], tm)
           | Parsed ts \<Rightarrow>
               (let c' = (case ts of None \<Rightarrow> [] | Some l \<Rightarrow> l)
                in (c', tm\<lparr>cache := Some c', cacheTimestamp := now\<rparr>))))"

definition refreshCache ::
  "int \<Rightarrow> token_file \<Rightarrow> token_manager \<Rightarrow> device_token list \<times> token_manager" where
  "refreshCache now file tm = readTokens now file (tm\<lparr>cacheTimestamp := 0\<rparr>)"

text \<open>The character class \<open>[a-f0-9]\<close> under the flag \<open>i\<close>.\<close>

definition is_hex :: "char \<Rightarrow> bool" where
  "is_hex c = (c \<in> set ''0123456789abcdefABCDEF'')"

text \<open>\<open>/^[a-f0-9]{64}$/i.test(s)\<close>: without the flag \<open>m\<close>, \<open>$\<close> is the end of the input.\<close>

definition hex64 :: "string \<Rightarrow> bool" where
  "hex64 s = (length s = 64 \<and> list_all is_hex s)"

text \<open>
  \<open>validateToken\<close>. The clock is read once per call: the two \<open>Date.now()\<close> of one
  synchronous call are taken as the same instant.
\<close>

definition validateToken ::
  "int \<Rightarrow> token_file \<Rightarrow> token_manager \<Rightarrow> jsval \<Rightarrow> validation \<times> token_manager" where
  "validateToken now file tm tokenValue =
     (case tokenValue of
        JStr s \<Rightarrow>
          if s = [] then (Invalid INVALID_FORMAT, tm)
          else if \<not> hex64 s then (Invalid INVALID_FORMAT, tm)
          else
            (let (tokens, tm') = readTokens now file tm
             in case find (\<lambda>t. token t = s) tokens of
                  None \<Rightarrow> (Invalid TOKEN_NOT_FOUND, tm')
                | Some t \<Rightarrow>
                    if \<not> active t then (Invalid TOKEN_REVOKED, tm')
                    else if expiresAt t < now then (Invalid TOKEN_EXPIRED, tm')
                    else (Valid t, tm'))
      | _ \<Rightarrow> (Invalid INVALID_FORMAT, tm))"

section \<open>The Socket.IO server: authentication (\<open>SocketIOServer\<close>)\<close>

record attempts =
  count :: nat
  resetAt :: int

definition MAX_AUTH_ATTEMPTS :: nat where
  "MAX_AUTH_ATTEMPTS = 10"

definition AUTH_WINDOW :: int where
  "AUTH_WINDOW = 15 * 60 * 1000"

datatype rate_check = Allowed | Denied int

text \<open>
  \<open>Math.ceil(ms / 1000)\<close> on an integer number of milliseconds (the quotient is exact
  in a double for every clock value in range).
\<close>

definition ceil_seconds :: "int \<Rightarrow> int" where
  "ceil_seconds ms = - ((- ms) div 1000)"

text \<open>
  \<open>checkRateLimit\<close> on the map \<open>authAttempts\<close>: the entry is replaced when it is
  missing or its \<open>resetAt\<close> lies before \<open>now\<close>, then its counter is incremented in
  place.
\<close>

definition checkRateLimit ::
  "int \<Rightarrow> (string \<rightharpoonup> attempts) \<Rightarrow> string \<Rightarrow> rate_check \<times> (string \<rightharpoonup> attempts)" where
  "checkRateLimit now authAttempts ip =
     (let a0 = (case authAttempts ip of
                  None \<Rightarrow> \<lparr>count = 0, resetAt = now + AUTH_WINDOW\<rparr>
                | Some a \<Rightarrow>
                    if resetAt a < now then \<lparr>count = 0, resetAt = now + AUTH_WINDOW\<rparr>
                    else a);
          a1 = a0\<lparr>count := count a0 + 1\<rparr>;
          m = authAttempts(ip \<mapsto> a1)
      in if count a1 > MAX_AUTH_ATTEMPTS
         then (Denied (ceil_seconds (resetAt a1 - now)), m)
         else (Allowed, m))"

text \<open>
  \<open>socket.handshake\<close>: the source address, the \<open>user-agent\<close> header (undefined
  when the client sent none) and the \<open>auth\<close> object's three properties.
\<close>

record handshake =
  address :: string
  userAgent :: jsval
  auth_token :: jsval
  auth_deviceName :: jsval
  auth_version :: jsval

text \<open>
  \<open>socket.data\<close> as the middleware fills it. The device-class flags and
  \<open>connectedAt\<close> are used for logging only and are left out.
\<close>

record socket_data =
  authenticated :: bool
  authToken :: string
  sd_userId :: string
  sd_deviceName :: jsval
  sd_deviceId :: string
  sd_expiresAt :: int
  sd_userEmail :: string
  sd_ip :: string
  sd_userAgent :: jsval

text \<open>
  The events the server emits on a socket, with their payload: \<open>auth:revoked\<close>
  (reason, timestamp), \<open>photos:batch-started\<close> (totalPhotos; the estimated time, a
  fraction of a second per photo, is left out), \<open>photo:data\<close> (photoId, chunk,
  totalSize, checksum, mimeType), \<open>photo:complete\<close> (photoId, totalSize, checksum),
  \<open>photo:error\<close> (photoId, code, message, timestamp). The message of a
  \<open>photo:error\<close> is that of the error that failed the job.
\<close>

type_synonym bytes = "8 word list"

datatype job_error =
    NotInDatabase string
  | NotOnDisk string
  | SharpFailed
  | WriteFailed

datatype event =
    AuthRevoked reason int
  | BatchStarted nat
  | PhotoData string bytes nat string string
  | PhotoComplete string nat string
  | PhotoError string string job_error int

datatype action = Emit event | Disconnect

record socket =
  data :: socket_data
  rooms :: "string list"
  handlers :: "string list"

text \<open>
  The server: the rate-limit map, the token manager singleton, the live sockets
  (\<open>io.sockets.sockets\<close>, a map iterated in insertion order) and, as the observable
  behaviour, the sequence of what the server did to which socket.
\<close>

record server =
  authAttempts :: "string \<rightharpoonup> attempts"
  tokenManager :: token_manager
  sockets :: "(string \<times> socket) list"
  wire :: "(string \<times> action) list"

text \<open>
  \<open>authMiddleware(socket, next)\<close>: \<open>Inl r\<close> is \<open>next(new Error(r))\<close>, \<open>Inr d\<close> is
  \<open>socket.data = d; next()\<close>.
\<close>

definition authMiddleware ::
  "int \<Rightarrow> token_file \<Rightarrow> server \<Rightarrow> handshake \<Rightarrow> (reason + socket_data) \<times> server" where
  "authMiddleware now file srv hs =
     (let ip = address hs;
          (rateCheck, m) = checkRateLimit now (authAttempts srv) ip;
          srv1 = srv\<lparr>authAttempts := m\<rparr>
      in case rateCheck of
           Denied retryAfter \<Rightarrow> (Inl (RATE_LIMIT_EXCEEDED retryAfter), srv1)
         | Allowed \<Rightarrow>
             (case auth_token hs of
                JStr s \<Rightarrow>
                  if s = [] \<or> length s \<noteq> 64 then (Inl INVALID_TOKEN, srv1)
                  else if \<not> (s \<noteq> [] \<and> list_all is_hex s) then (Inl INVALID_TOKEN, srv1)
                  else
                    (let (v, tm') = validateToken now file (tokenManager srv1) (JStr s);
                         srv2 = srv1\<lparr>tokenManager := tm'\<rparr>
                     in case v of
                          Invalid r \<Rightarrow> (Inl r, srv2)
                        | Valid t \<Rightarrow>
                            (Inr \<lparr>authenticated = True,
                                  authToken = s,
                                  sd_userId = userId t,
                                  sd_deviceName = js_or (auth_deviceName hs) (JStr (deviceName t)),
                                  sd_deviceId = deviceId t,
                                  sd_expiresAt = expiresAt t,
                                  sd_userEmail = userEmail t,
                                  sd_ip = ip,
                                  sd_userAgent = js_or (userAgent hs) (JStr ''Unknown'')\<rparr>, srv2))
              | _ \<Rightarrow> (Inl INVALID_TOKEN, srv1)))"

text \<open>\<open>handleConnection\<close>: the socket joins its three rooms and gets its handlers.\<close>

definition handleConnection :: "string \<Rightarrow> socket_data \<Rightarrow> server \<Rightarrow> server" where
  "handleConnection sid d srv =
     srv\<lparr>sockets := sockets srv @
        [(sid, \<lparr>data = d,
                rooms = [''authenticated'', ''user:'' @ sd_userId d, ''device:'' @ sd_deviceId d],
                handlers = [''manifest:request'', ''photos:request-batch'',
                            ''photos:request-originals'', ''disconnect'', ''error'']\<rparr>)]\<rparr>"

text \<open>
  A connection attempt as \<open>start()\<close> wires it: \<open>io.use(authMiddleware)\<close> runs first, and
  Socket.IO fires \<open>connection\<close> (hence \<open>handleConnection\<close>) only when the middleware
  called \<open>next()\<close> without an error.
\<close>

definition connect ::
  "int \<Rightarrow> token_file \<Rightarrow> server \<Rightarrow> string \<Rightarrow> handshake \<Rightarrow> (reason + unit) \<times> server" where
  "connect now file srv sid hs =
     (case authMiddleware now file srv hs of
        (Inl r, srv') \<Rightarrow> (Inl r, srv')
      | (Inr d, srv') \<Rightarrow> (Inr (), handleConnection sid d srv'))"

text \<open>
  \<open>checkAuthenticatedConnections\<close>: every socket of \<open>io.sockets.sockets\<close> in turn;
  \<open>socket.disconnect(true)\<close> takes the socket out of that map.
\<close>

fun checkConnections ::
  "int \<Rightarrow> token_file \<Rightarrow> (string \<times> socket) list \<Rightarrow> server \<Rightarrow> server" where
  "checkConnections now file [] srv = srv"
| "checkConnections now file ((socketId, s) # rest) srv =
     (if authenticated (data s) then
        (let (v, tm') = validateToken now file (tokenManager srv) (JStr (authToken (data s)));
             srv1 = srv\<lparr>tokenManager := tm'\<rparr>
         in case v of
              Invalid r \<Rightarrow>
                checkConnections now file rest
                  (srv1\<lparr>wire := wire srv1 @
                           [(socketId, Emit (AuthRevoked r now)), (socketId, Disconnect)],
                        sockets := filter (\<lambda>e. fst e \<noteq> socketId) (sockets srv1)\<rparr>)
            | Valid t \<Rightarrow> checkConnections now file rest srv1)
      else checkConnections now file rest srv)"

definition checkAuthenticatedConnections :: "int \<Rightarrow> token_file \<Rightarrow> server \<Rightarrow> server" where
  "checkAuthenticatedConnections now file srv = checkConnections now file (sockets srv) srv"

text \<open>
  The callback \<open>startTokenFileWatcher\<close> hands to \<open>fs.watch\<close>; \<open>file\<close> is what the
  token file holds when the callback runs.
\<close>

definition tokenFileWatcher :: "string \<Rightarrow> int \<Rightarrow> token_file \<Rightarrow> server \<Rightarrow> server" where
  "tokenFileWatcher eventType now file srv =
     (if eventType = ''change'' then
        (let (ts, tm') = refreshCache now file (tokenManager srv)
         in checkAuthenticatedConnections now file (srv\<lparr>tokenManager := tm'\<rparr>))
      else srv)"

subsection \<open>Sequences of attempts and sample data\<close>

text \<open>Successive authentication attempts from one address, at the given clock values.\<close>

fun rate_run ::
  "(string \<rightharpoonup> attempts) \<Rightarrow> string \<Rightarrow> int list \<Rightarrow> rate_check list \<times> (string \<rightharpoonup> attempts)" where
  "rate_run m ip [] = ([], m)"
| "rate_run m ip (t # ts) =
     (let (r, m') = checkRateLimit t m ip;
          (rs, m'') = rate_run m' ip ts
      in (r # rs, m''))"


definition tok_a :: string where
  "tok_a = ''aaaaaaaaaaaaaaaaaaaaaaaaaaaaaaaaaaaaaaaaaaaaaaaaaaaaaaaaaaaaaaaa''"
definition tok_b :: string where
  "tok_b = ''0123456789abcdef0123456789ABCDEF0123456789abcdef0123456789ABCDEF''"
definition tok_c :: string where
  "tok_c = ''cccccccccccccccccccccccccccccccccccccccccccccccccccccccccccccccc''"
definition tok_d :: string where
  "tok_d = ''dddddddddddddddddddddddddddddddddddddddddddddddddddddddddddddddd''"

definition dev_a :: device_token where
  "dev_a = \<lparr>token = tok_a, deviceId = ''dev-a'', deviceName = ''Phone A'', userId = ''u1'',
            userEmail = ''a@example.org'', expiresAt = 2000000, active = True\<rparr>"
definition dev_b :: device_token where
  "dev_b = \<lparr>token = tok_b, deviceId = ''dev-b'', deviceName = ''Phone B'', userId = ''u1'',
            userEmail = ''a@example.org'', expiresAt = 500000, active = False\<rparr>"
definition dev_c :: device_token where
  "dev_c = \<lparr>token = tok_c, deviceId = ''dev-c'', deviceName = ''Tablet C'', userId = ''u2'',
            userEmail = ''c@example.org'', expiresAt = 500000, active = True\<rparr>"

definition file0 :: token_file where
  "file0 = Parsed (Some [dev_a, dev_b, dev_c])"

definition srv0 :: server where
  "srv0 = \<lparr>authAttempts = Map.empty, tokenManager = \<lparr>cache = None, cacheTimestamp = 0\<rparr>,
           sockets = [], wire = []\<rparr>"

definition hs_of :: "jsval \<Rightarrow> handshake" where
  "hs_of v = \<lparr>address = ''10.0.0.7'', userAgent = JStr ''PhotoSync/1.0 (iPhone)'',
             auth_token = v, auth_deviceName = JUndefined, auth_version = JStr ''1.0''\<rparr>"


definition srv_limited :: server where
  "srv_limited = srv0\<lparr>authAttempts := [''10.0.0.7'' \<mapsto> \<lparr>count = 10, resetAt = 900000\<rparr>]\<rparr>"

subsection \<open>Re-validation of live sockets\<close>

text \<open>A token manager that has read nothing yet: validating with it reads the store itself.\<close>

definition fresh :: token_manager where
  "fresh = \<lparr>cache = None, cacheTimestamp = 0\<rparr>"

text \<open>What a re-validation against the store does to one live socket.\<close>

definition revocation :: "int \<Rightarrow> token_file \<Rightarrow> string \<times> socket \<Rightarrow> (string \<times> action) list" where
  "revocation now tf e =
     (if authenticated (data (snd e)) then
        (case fst (validateToken now tf fresh (JStr (authToken (data (snd e))))) of
           Invalid r \<Rightarrow> [(fst e, Emit (AuthRevoked r now)), (fst e, Disconnect)]
         | Valid t \<Rightarrow> [])
      else [])"

text \<open>The tokens a read of the store yields.\<close>

definition file_tokens :: "token_file \<Rightarrow> device_token list" where
  "file_tokens tf = (case tf of Unreadable \<Rightarrow> [] | Parsed None \<Rightarrow> [] | Parsed (Some l) \<Rightarrow> l)"


definition sock_of :: "string \<Rightarrow> socket" where
  "sock_of tok =
     \<lparr>data = \<lparr>authenticated = True, authToken = tok, sd_userId = ''u1'',
              sd_deviceName = JStr ''Phone'', sd_deviceId = ''dev'', sd_expiresAt = 2000000,
              sd_userEmail = ''a@example.org'', sd_ip = ''10.0.0.7'',
              sd_userAgent = JStr ''PhotoSync/1.0 (iPhone)''\<rparr>,
      rooms = [''authenticated'', ''user:u1'', ''device:dev''],
      handlers = [''manifest:request'', ''photos:request-batch'',
                  ''photos:request-originals'', ''disconnect'', ''error'']\<rparr>"

definition srv_live :: server where
  "srv_live = srv0\<lparr>sockets := [(''s1'', sock_of tok_a), (''s2'', sock_of tok_b),
                                 (''s3'', sock_of tok_c), (''s4'', sock_of tok_d)]\<rparr>"

section \<open>The photo catalogue and the manifests\<close>

text \<open>
  A catalogue record as \<open>scanDirectoryRecursive\<close> (\<open>server.js\<close>) builds it. These are all
  the properties it has: reading \<open>photo.name\<close> or \<open>photo.created\<close> yields
  \<open>undefined\<close>.
\<close>

record photo =
  id' :: string
  filename :: string
  path :: string
  size' :: int
  modified :: int
  width :: int
  height :: int
  rootPath :: string
  folderPath :: string

text \<open>\<open>PhotoDatabase.getPhoto\<close> and its alias \<open>getPhotoById\<close>.\<close>

definition getPhoto :: "photo list \<Rightarrow> string \<Rightarrow> photo option" where
  "getPhoto database i = find (\<lambda>p. id' p = i) database"

text \<open>
  \<open>photos.map(p => p.id).sort().join('')\<close>: the default sort compares strings by their
  code units, which is the lexicographic order on the characters.
\<close>

definition sorted_ids :: "photo list \<Rightarrow> string" where
  "sorted_ids photos = concat (sort (map id' photos))"

text \<open>
  \<open>SocketIOServer.handleManifestRequest\<close>: the object handed to the acknowledgment
  callback (when the client gave one). \<open>md5\<close> is
  \<open>s \<mapsto> crypto.createHash('md5').update(s).digest('hex')\<close>.
\<close>

definition manifest_entry :: "photo \<Rightarrow> jsval" where
  "manifest_entry photo =
     JObj [(''id'', JStr (id' photo)),
           (''filename'', JStr (filename photo)),
           (''size'', JNum (size' photo)),
           (''modified'', JNum (modified photo)),
           (''width'', JNum (width photo)),
           (''height'', JNum (height photo))]"

definition handleManifestRequest :: "(string \<Rightarrow> string) \<Rightarrow> int \<Rightarrow> photo list \<Rightarrow> jsval" where
  "handleManifestRequest md5 now photos =
     (let manifest = map manifest_entry photos;
          ids = sorted_ids photos;
          hash = md5 ids
      in JObj [(''count'', JNum (int (length manifest))),
               (''hash'', JStr hash),
               (''photos'', JArr manifest),
               (''timestamp'', JNum now)])"

text \<open>
  \<open>WebRTCManager.sendManifest\<close>: the message object handed to \<open>sendToPeer\<close>, which
  sends its \<open>JSON.stringify\<close>.
\<close>

definition p2p_manifest_entry :: "photo \<Rightarrow> jsval" where
  "p2p_manifest_entry photo =
     JObj [(''id'', JStr (id' photo)),
           (''name'', JUndefined),
           (''size'', JNum (size' photo)),
           (''width'', JNum (width photo)),
           (''height'', JNum (height photo)),
           (''modified'', JNum (modified photo)),
           (''created'', JUndefined)]"

definition sendManifest :: "photo list \<Rightarrow> jsval" where
  "sendManifest photos =
     (let manifest = map p2p_manifest_entry photos
      in JObj [(''type'', JStr ''manifest''),
               (''photos'', JArr manifest),
               (''count'', JNum (int (length manifest)))])"

text \<open>The elements of an array value.\<close>

fun elements :: "jsval \<Rightarrow> jsval list" where
  "elements (JArr xs) = xs"
| "elements _ = []"

subsection \<open>A sample catalogue\<close>

definition photo1 :: photo where
  "photo1 = \<lparr>id' = ''00aa11bb22cc33dd'', filename = ''beach.jpg'',
             path = ''/home/u/Pictures/2024/trip/beach.jpg'', size' = 204800,
             modified = 1700000000000, width = 4000, height = 3000,
             rootPath = ''/home/u/Pictures'', folderPath = ''2024/trip''\<rparr>"

definition photo2 :: photo where
  "photo2 = \<lparr>id' = ''ffee11bb22cc33dd'', filename = ''logo.png'',
             path = ''/home/u/Pictures/logo.png'', size' = 1024,
             modified = 1700000001000, width = 64, height = 64,
             rootPath = ''/home/u/Pictures'', folderPath = ''''\<rparr>"

definition photo3 :: photo where
  "photo3 = \<lparr>id' = ''0123456789abcdef'', filename = ''hill.jpg'',
             path = ''/home/u/Pictures/2024/hill.jpg'', size' = 4096,
             modified = 1700000002000, width = 800, height = 600,
             rootPath = ''/home/u/Pictures'', folderPath = ''2024''\<rparr>"

section \<open>The rendition cache: \<open>compressImage\<close> (\<open>server.js\<close>)\<close>

text \<open>
  A number inside a template literal: its decimal digits. (From \<open>1e21\<close> on JavaScript
  prints an exponent instead; the handlers let through no value above 10000.)
\<close>

function dec_nat :: "nat \<Rightarrow> string" where
  "dec_nat n = (if n < 10 then [''0123456789'' ! n]
                else dec_nat (n div 10) @ [''0123456789'' ! (n mod 10)])"
  by pat_completeness auto
termination
  by (relation "measure (\<lambda>n. n)") auto

declare dec_nat.simps [simp del]

definition show_int :: "int \<Rightarrow> string" where
  "show_int i = (if i < 0 then ''-'' @ dec_nat (nat (- i)) else dec_nat (nat i))"

definition getCacheKey :: "string \<Rightarrow> int \<Rightarrow> int \<Rightarrow> string" where
  "getCacheKey i quality maxDimension = i @ ''_'' @ show_int quality @ ''_'' @ show_int maxDimension"

text \<open>\<open>CACHE_DIRECTORY\<close> is \<open>.cache\<close> beside the server's script.\<close>

definition CACHE_DIRECTORY :: string where
  "CACHE_DIRECTORY = ''.cache''"

definition cacheFilePath :: "string \<Rightarrow> string" where
  "cacheFilePath cacheKey = CACHE_DIRECTORY @ ''/'' @ cacheKey @ ''.jpg''"

text \<open>
  What lies outside the program: \<open>resample src quality maxDimension\<close> is the buffer that
  \<open>sharp(file).resize(maxDimension, maxDimension, {fit: 'inside', withoutEnlargement:
  true}).jpeg({quality}).toBuffer()\<close> resolves to for a file holding \<open>src\<close>, or
  \<open>None\<close> when it rejects; \<open>can_write p\<close> tells whether \<open>mkdir\<close> and
  \<open>writeFile\<close> succeed for the cache file \<open>p\<close>; \<open>md5_of\<close> is
  \<open>crypto.createHash('md5').update(buffer).digest('hex')\<close>.
\<close>

record env =
  resample :: "bytes \<Rightarrow> int \<Rightarrow> int \<Rightarrow> bytes option"
  can_write :: "string \<Rightarrow> bool"
  md5_of :: "bytes \<Rightarrow> string"

text \<open>The steps of a cache call, recorded in the order in which they happen.\<close>

datatype cache_op =
    MemHas string
  | MemGet string
  | DiskExists string
  | DiskRead string
  | MemSet string
  | Resample string
  | Mkdir string
  | DiskWrite string

text \<open>
  The two tiers and the files: \<open>compressionCache\<close> is the in-memory \<open>Map\<close>, \<open>disk\<close>
  the file system (source photos and cache files alike).
\<close>

record cache =
  compressionCache :: "string \<rightharpoonup> bytes"
  disk :: "string \<rightharpoonup> bytes"
  ops :: "cache_op list"

definition logop :: "cache_op \<Rightarrow> cache \<Rightarrow> cache" where
  "logop x c = c\<lparr>ops := ops c @ [x]\<rparr>"

text \<open>\<open>compressImage(filePath, quality, maxDimension, id)\<close>; \<open>Inl\<close> is a rejected promise.\<close>

definition compressImage ::
  "env \<Rightarrow> string \<Rightarrow> int \<Rightarrow> int \<Rightarrow> string \<Rightarrow> cache \<Rightarrow> (job_error + bytes) \<times> cache" where
  "compressImage e filePath quality maxDimension i c =
     (let cacheKey = getCacheKey i quality maxDimension;
          c1 = logop (MemHas cacheKey) c
      in case compressionCache c1 cacheKey of
           Some buffer \<Rightarrow> (Inr buffer, logop (MemGet cacheKey) c1)
         | None \<Rightarrow>
             (let p = cacheFilePath cacheKey;
                  c2 = logop (DiskExists p) c1
              in case disk c2 p of
                   Some buffer \<Rightarrow>
                     (let c3 = logop (DiskRead p) c2;
                          c4 = logop (MemSet cacheKey)
                                 (c3\<lparr>compressionCache := (compressionCache c3)(cacheKey \<mapsto> buffer)\<rparr>)
                      in (Inr buffer, c4))
                 | None \<Rightarrow>
                     (let c3 = logop (Resample filePath) c2
                      in case (case disk c3 filePath of
                                 None \<Rightarrow> None
                               | Some src \<Rightarrow> resample e src quality maxDimension) of
                           None \<Rightarrow> (Inl SharpFailed, c3)
                         | Some buffer \<Rightarrow>
                             (let c4 = logop (MemSet cacheKey)
                                         (c3\<lparr>compressionCache :=
                                               (compressionCache c3)(cacheKey \<mapsto> buffer)\<rparr>);
                                  c5 = logop (Mkdir CACHE_DIRECTORY) c4
                              in if \<not> can_write e p then (Inl WriteFailed, c5)
                                 else (Inr buffer,
                                       logop (DiskWrite p) (c5\<lparr>disk := (disk c5)(p \<mapsto> buffer)\<rparr>))))))"

text \<open>Successive calls, each with its own arguments.\<close>

fun compress_all ::
  "env \<Rightarrow> (string \<times> int \<times> int \<times> string) list \<Rightarrow> cache \<Rightarrow> cache" where
  "compress_all e [] c = c"
| "compress_all e ((filePath, quality, maxDimension, i) # rest) c =
     compress_all e rest (snd (compressImage e filePath quality maxDimension i c))"

section \<open>The transfer worker: \<open>PhotoWorker\<close>\<close>

text \<open>
  A queued job. \<open>quality\<close> and \<open>maxDimension\<close> are read by compressed jobs only;
  \<open>socketId\<close> names the target socket.
\<close>

record job =
  job_type :: string
  photoId :: string
  quality :: int
  maxDimension :: int
  socketId :: string

datatype outcome = Resolved | Rejected job_error

text \<open>
  The worker: its queue, its flag, the jobs whose processing has been started and awaits
  completion, and the jobs settled so far with how their promise was settled. \<open>world\<close>
  is everything a job's processing reads and changes.
\<close>

record 'w photoWorker =
  queue :: "job list"
  busy :: bool
  running :: "job list"
  settled :: "(job \<times> outcome) list"
  world :: 'w

text \<open>
  The head of the \<open>while\<close> loop of \<open>processQueue\<close>: with a job queued, it is shifted
  off the queue and its processing is started (the loop is suspended at the \<open>await\<close>);
  with none, the loop ends and \<open>busy\<close> is reset.
\<close>

definition loop_head :: "'w photoWorker \<Rightarrow> 'w photoWorker" where
  "loop_head w =
     (case queue w of
        [] \<Rightarrow> w\<lparr>busy := False\<rparr>
      | j # q \<Rightarrow> w\<lparr>queue := q, running := running w @ [j]\<rparr>)"

definition processQueue :: "'w photoWorker \<Rightarrow> 'w photoWorker" where
  "processQueue w =
     (if busy w \<or> queue w = [] then w else loop_head (w\<lparr>busy := True\<rparr>))"

definition queueJob :: "job \<Rightarrow> 'w photoWorker \<Rightarrow> 'w photoWorker" where
  "queueJob j w =
     (let w1 = w\<lparr>queue := queue w @ [j]\<rparr>
      in if \<not> busy w1 then processQueue w1 else w1)"

text \<open>
  The \<open>await\<close> of a started job returns: \<open>exec\<close> is the job's processing, whose
  result settles the job's promise (\<open>job.resolve()\<close>, or \<open>job.reject(error)\<close> in the
  \<open>catch\<close>), and the loop goes back to its head.
\<close>

definition job_done ::
  "(job \<Rightarrow> 'w \<Rightarrow> outcome \<times> 'w) \<Rightarrow> 'w photoWorker \<Rightarrow> 'w photoWorker" where
  "job_done exec w =
     (case running w of
        [] \<Rightarrow> w
      | j # rest \<Rightarrow>
          (let (r, x) = exec j (world w)
           in loop_head (w\<lparr>running := rest, settled := settled w @ [(j, r)], world := x\<rparr>)))"

text \<open>What happens to a worker: a job is queued, or the started job completes.\<close>

datatype worker_event = Enqueue job | Done

fun worker_step ::
  "(job \<Rightarrow> 'w \<Rightarrow> outcome \<times> 'w) \<Rightarrow> 'w photoWorker \<Rightarrow> worker_event \<Rightarrow> 'w photoWorker" where
  "worker_step exec w (Enqueue j) = queueJob j w"
| "worker_step exec w Done = job_done exec w"

definition new_worker :: "'w \<Rightarrow> 'w photoWorker" where
  "new_worker x = \<lparr>queue = [], busy = False, running = [], settled = [], world = x\<rparr>"

definition worker_run ::
  "(job \<Rightarrow> 'w \<Rightarrow> outcome \<times> 'w) \<Rightarrow> 'w \<Rightarrow> worker_event list \<Rightarrow> 'w photoWorker" where
  "worker_run exec x evs = foldl (worker_step exec) (new_worker x) evs"

text \<open>The jobs queued by a sequence of events, in order.\<close>

fun enqueued :: "worker_event list \<Rightarrow> job list" where
  "enqueued [] = []"
| "enqueued (Enqueue j # evs) = j # enqueued evs"
| "enqueued (Done # evs) = enqueued evs"

text \<open>The worker left to itself until no job is started any more.\<close>

function drain ::
  "(job \<Rightarrow> 'w \<Rightarrow> outcome \<times> 'w) \<Rightarrow> 'w photoWorker \<Rightarrow> 'w photoWorker" where
  "drain exec w = (if running w = [] then w else drain exec (job_done exec w))"
  by pat_completeness auto
termination
proof (relation "measure (\<lambda>(exec, w). length (running w) + length (queue w))")
  show "wf (measure (\<lambda>(exec, w). length (running w) + length (queue w)))" by simp
next
  fix exec :: "job \<Rightarrow> 'w \<Rightarrow> outcome \<times> 'w" and w :: "'w photoWorker"
  assume "running w \<noteq> []"
  then obtain j rest where r: "running w = j # rest" by (cases "running w") auto
  obtain o' x where e: "exec j (world w) = (o', x)" by (cases "exec j (world w)")
  show "((exec, job_done exec w), (exec, w))
          \<in> measure (\<lambda>(exec, w). length (running w) + length (queue w))"
    using r e by (cases "queue w") (simp_all add: job_done_def loop_head_def)
qed

declare drain.simps [simp del]

section \<open>Processing a job\<close>

text \<open>
  What a job's processing reads and changes: the catalogue, the rendition cache with the
  file system, the sockets that are still connected, and what has been emitted on which
  socket. \<open>socket.emit\<close> on a socket that has been disconnected writes nothing and does
  not throw.
\<close>

record transfer =
  database :: "photo list"
  rcache :: cache
  connected :: "string list"
  emitted :: "(string \<times> event) list"

definition emit :: "string \<Rightarrow> event \<Rightarrow> transfer \<Rightarrow> transfer" where
  "emit sid ev t = (if sid \<in> set (connected t) then t\<lparr>emitted := emitted t @ [(sid, ev)]\<rparr> else t)"

definition processCompressedPhoto :: "env \<Rightarrow> job \<Rightarrow> transfer \<Rightarrow> (job_error + unit) \<times> transfer" where
  "processCompressedPhoto e j t =
     (case getPhoto (database t) (photoId j) of
        None \<Rightarrow> (Inl (NotInDatabase (photoId j)), t)
      | Some photo \<Rightarrow>
          if disk (rcache t) (path photo) = None then (Inl (NotOnDisk (path photo)), t)
          else
            (case compressImage e (path photo) (quality j) (maxDimension j) (photoId j) (rcache t) of
               (Inl err, c) \<Rightarrow> (Inl err, t\<lparr>rcache := c\<rparr>)
             | (Inr compressedBuffer, c) \<Rightarrow>
                 (let checksum = md5_of e compressedBuffer;
                      t1 = emit (socketId j)
                             (PhotoData (photoId j) compressedBuffer (length compressedBuffer)
                                checksum ''image/jpeg'') (t\<lparr>rcache := c\<rparr>);
                      t2 = emit (socketId j)
                             (PhotoComplete (photoId j) (length compressedBuffer) checksum) t1
                  in (Inr (), t2))))"

text \<open>
  \<open>path.extname(p).toLowerCase()\<close>: from the last dot of the last path component on,
  empty when that component has no dot or only a leading one.
\<close>

definition basename :: "string \<Rightarrow> string" where
  "basename p = rev (takeWhile (\<lambda>c. c \<noteq> CHR ''/'') (rev p))"

definition extname :: "string \<Rightarrow> string" where
  "extname p =
     (let b = basename p;
          suffix = rev (takeWhile (\<lambda>c. c \<noteq> CHR ''.'') (rev b))
      in if CHR ''.'' \<notin> set b \<or> length suffix + 1 = length b then [] else CHR ''.'' # suffix)"

definition lower_char :: "char \<Rightarrow> char" where
  "lower_char c =
     (if CHR ''A'' \<le> c \<and> c \<le> CHR ''Z'' then char_of (of_char c + (32::nat)) else c)"

definition mimeType_of :: "string \<Rightarrow> string" where
  "mimeType_of p =
     (let ext = map lower_char (extname p)
      in if ext = ''.jpg'' then ''image/jpeg''
         else if ext = ''.jpeg'' then ''image/jpeg''
         else if ext = ''.png'' then ''image/png''
         else if ext = ''.gif'' then ''image/gif''
         else if ext = ''.webp'' then ''image/webp''
         else if ext = ''.heic'' then ''image/heic''
         else ''image/jpeg'')"

definition processOriginalPhoto :: "env \<Rightarrow> job \<Rightarrow> transfer \<Rightarrow> (job_error + unit) \<times> transfer" where
  "processOriginalPhoto e j t =
     (case getPhoto (database t) (photoId j) of
        None \<Rightarrow> (Inl (NotInDatabase (photoId j)), t)
      | Some photo \<Rightarrow>
          (case disk (rcache t) (path photo) of
             None \<Rightarrow> (Inl (NotOnDisk (path photo)), t)
           | Some fullBuffer \<Rightarrow>
               (let checksum = md5_of e fullBuffer;
                    mimeType = mimeType_of (path photo);
                    t1 = emit (socketId j)
                           (PhotoData (photoId j) fullBuffer (length fullBuffer) checksum mimeType) t;
                    t2 = emit (socketId j)
                           (PhotoComplete (photoId j) (length fullBuffer) checksum) t1
                in (Inr (), t2))))"

text \<open>The body of the \<open>try\<close> in \<open>processQueue\<close>, with how the promise is settled.\<close>

definition run_job :: "env \<Rightarrow> job \<Rightarrow> transfer \<Rightarrow> outcome \<times> transfer" where
  "run_job e j t =
     (let (r, t') = (if job_type j = ''compressed'' then processCompressedPhoto e j t
                     else if job_type j = ''original'' then processOriginalPhoto e j t
                     else (Inr (), t))
      in (case r of Inl err \<Rightarrow> Rejected err | Inr u \<Rightarrow> Resolved, t'))"

subsection \<open>A sample environment\<close>

text \<open>
  A stand-in for the image library: a file is decodable when it starts with the byte
  \<open>0xFF\<close>, and its rendition keeps at most \<open>maxDimension\<close> of its bytes.
\<close>

definition env0 :: env where
  "env0 = \<lparr>resample = (\<lambda>src q d. if take 1 src = [0xFF] then Some (take (nat d) src) else None),
           can_write = (\<lambda>p. True),
           md5_of = (\<lambda>b. dec_nat (length b))\<rparr>"

definition env_ro :: env where
  "env_ro = env0\<lparr>can_write := (\<lambda>p. False)\<rparr>"

definition cache0 :: cache where
  "cache0 = \<lparr>compressionCache = Map.empty,
             disk = [path photo1 \<mapsto> [0xFF, 0xD8, 1, 2, 3],
                     path photo2 \<mapsto> [0x89, 0x50, 0x4E, 0x47],
                     path photo3 \<mapsto> [0xFF, 0xD8, 9]],
             ops = []\<rparr>"

definition cache1 :: cache where
  "cache1 = snd (compressImage env0 (path photo1) 50 2 (id' photo1) cache0)"

definition job1 :: job where
  "job1 = \<lparr>job_type = ''compressed'', photoId = id' photo1, quality = 50, maxDimension = 2,
           socketId = ''s1''\<rparr>"

definition transfer0 :: transfer where
  "transfer0 = \<lparr>database = [photo1, photo2, photo3], rcache = cache0,
                connected = [''s1'', ''s2''], emitted = []\<rparr>"

text \<open>After the delivery of \<open>job1\<close> and a rendition of another photo.\<close>

definition transfer2 :: transfer where
  "transfer2 = transfer0\<lparr>rcache :=
      compress_all env0 [(path photo3, 50, 2, id' photo3)]
        (rcache (snd (processCompressedPhoto env0 job1 transfer0)))\<rparr>"

subsection \<open>The worker's invariant\<close>

text \<open>
  At most one job is started; \<open>busy\<close> says whether one is; jobs wait in the queue only
  while one is started.
\<close>

definition worker_inv :: "'w photoWorker \<Rightarrow> bool" where
  "worker_inv w \<longleftrightarrow>
     length (running w) \<le> 1 \<and> (busy w \<longleftrightarrow> running w \<noteq> []) \<and> (running w = [] \<longrightarrow> queue w = [])"

text \<open>Every job the worker has seen, oldest first: settled, started, queued.\<close>

definition all_jobs :: "'w photoWorker \<Rightarrow> job list" where
  "all_jobs w = map fst (settled w) @ running w @ queue w"

subsection \<open>Sample jobs\<close>

text \<open>A job for an id the catalogue does not have, and a job for a second socket.\<close>

definition jobx :: job where
  "jobx = \<lparr>job_type = ''compressed'', photoId = ''ffffffffffffffff'', quality = 50,
           maxDimension = 2, socketId = ''s1''\<rparr>"

definition job3 :: job where
  "job3 = \<lparr>job_type = ''compressed'', photoId = id' photo3, quality = 50, maxDimension = 2,
           socketId = ''s2''\<rparr>"

text \<open>The socket \<open>s1\<close> has gone; \<open>s2\<close> is still connected.\<close>

definition transfer_s2 :: transfer where
  "transfer_s2 = transfer0\<lparr>connected := [''s2'']\<rparr>"

text \<open>Three jobs queued in a row, the first still being processed.\<close>

definition worker3 :: "transfer photoWorker" where
  "worker3 = worker_run (run_job env0) transfer_s2 [Enqueue jobx, Enqueue job1, Enqueue job3]"

section \<open>Batch requests: \<open>SocketIOServer.handleBatchRequest\<close>\<close>







subsection \<open>Ids whose transfer can run to completion\<close>





subsection \<open>A sample batch\<close>



section \<open>The P2P path: \<open>WebRTCManager.sendPhoto\<close>\<close>

text \<open>
  What \<open>peer.send\<close> is given: the \<open>JSON.stringify\<close> of a message object (kept here as
  the object the receiver parses back), or a binary chunk.
\<close>

datatype frame = Json jsval | Binary bytes

text \<open>
  The peer at one attempt to send: connected and taking the data; gone (missing from
  \<open>peers\<close>, destroyed or not connected); or connected with \<open>peer.send\<close> throwing.
  \<open>link k\<close> is the peer's state at the \<open>k\<close>-th attempt of a transfer, since the
  transfer is suspended between chunks and the peer may change meanwhile.
\<close>

datatype link_state = Up | Down | Throws

text \<open>\<open>sendToPeer\<close>: sends when the peer is connected; an exception of \<open>send\<close> is caught.\<close>

definition sendToPeer :: "(nat \<Rightarrow> link_state) \<Rightarrow> nat \<Rightarrow> jsval \<Rightarrow> frame list \<Rightarrow> frame list" where
  "sendToPeer link k message out =
     (case link k of
        Up \<Rightarrow> out @ [Json (json_roundtrip message)]
      | Down \<Rightarrow> out
      | Throws \<Rightarrow> out)"

definition chunkSize :: nat where
  "chunkSize = 64 * 1024"

text \<open>
  The \<open>while\<close> loop over the buffer: the result tells whether the loop ran to its end,
  how many attempts to send were made, and what was sent.
\<close>

function send_chunks ::
  "(nat \<Rightarrow> link_state) \<Rightarrow> nat \<Rightarrow> bytes \<Rightarrow> nat \<Rightarrow> frame list \<Rightarrow> bool \<times> nat \<times> frame list" where
  "send_chunks link k photoBuffer offset out =
     (if offset < length photoBuffer then
        (case link k of
           Up \<Rightarrow> send_chunks link (Suc k) photoBuffer (offset + chunkSize)
                   (out @ [Binary (take chunkSize (drop offset photoBuffer))])
         | Down \<Rightarrow> (False, k, out)
         | Throws \<Rightarrow> (False, k, out))
      else (True, k, out))"
  by pat_completeness auto
termination
  by (relation "measure (\<lambda>(link, k, photoBuffer, offset, out). length photoBuffer - offset)")
     (auto simp: chunkSize_def)

declare send_chunks.simps [simp del]

text \<open>
  \<open>p2p_resample src flatten quality maxDimension\<close> is the buffer of the \<open>sharp\<close>
  pipeline of \<open>sendPhoto\<close> (resize inside \<open>maxDimension\<close>, flatten onto white for a PNG,
  JPEG at \<open>quality\<close>) for a file holding \<open>src\<close>, or \<open>None\<close> when it rejects.
  \<open>files\<close> is the file system.
\<close>

definition error_message :: "string \<Rightarrow> string \<Rightarrow> jsval" where
  "error_message photoId' msg =
     JObj [(''type'', JStr ''error''), (''photoId'', JStr photoId'), (''error'', JStr msg)]"

text \<open>
  \<open>sendPhoto(clientId, photoId, quality = 60, maxDimension = 1920)\<close> for one peer: the
  frames sent to it. The catalogue's records have no property \<open>name\<close>, so
  \<open>photo.name\<close> is \<open>undefined\<close>.
\<close>

definition sendPhoto ::
  "(bytes \<Rightarrow> bool \<Rightarrow> int \<Rightarrow> int \<Rightarrow> bytes option) \<Rightarrow> (string \<rightharpoonup> bytes) \<Rightarrow> photo list
     \<Rightarrow> (nat \<Rightarrow> link_state) \<Rightarrow> string \<Rightarrow> int option \<Rightarrow> int option \<Rightarrow> frame list" where
  "sendPhoto p2p_resample files db link pid quality_arg maxDimension_arg =
     (let quality = (case quality_arg of None \<Rightarrow> 60 | Some v \<Rightarrow> v);
          maxDimension = (case maxDimension_arg of None \<Rightarrow> 1920 | Some v \<Rightarrow> v)
      in case getPhoto db pid of
           None \<Rightarrow> sendToPeer link 0 (error_message pid ''Photo not found'') []
         | Some photo \<Rightarrow>
             (let ext = map lower_char (extname (path photo));
                  isPNG = (ext = ''.png'');
                  processed = (case files (path photo) of
                                 None \<Rightarrow> None
                               | Some src \<Rightarrow> p2p_resample src isPNG quality maxDimension);
                  fallback = (case processed of
                                Some buffer \<Rightarrow> Some buffer
                              | None \<Rightarrow> files (path photo))
              in case fallback of
                   None \<Rightarrow> sendToPeer link 0 (error_message pid ''ENOENT'') []
                 | Some photoBuffer \<Rightarrow>
                     (let mimeType = ''image/jpeg'';
                          out1 = sendToPeer link 0
                                   (JObj [(''type'', JStr ''photo-start''),
                                          (''photoId'', JStr pid),
                                          (''name'', JUndefined),
                                          (''size'', JNum (int (length photoBuffer))),
                                          (''mimeType'', JStr mimeType)]) [];
                          (finished, k, out2) = send_chunks link 1 photoBuffer 0 out1
                      in if finished
                         then sendToPeer link k
                                (JObj [(''type'', JStr ''photo-complete''),
                                       (''photoId'', JStr pid),
                                       (''totalBytes'', JNum (int (length photoBuffer)))]) out2
                         else out2)))"

text \<open>The frames that are error messages, and the bytes of the binary frames.\<close>

fun is_error_frame :: "frame \<Rightarrow> bool" where
  "is_error_frame (Json v) = (get_prop v ''type'' = JStr ''error'')"
| "is_error_frame (Binary b) = False"

fun frame_bytes :: "frame \<Rightarrow> bytes" where
  "frame_bytes (Binary b) = b"
| "frame_bytes (Json v) = []"

subsection \<open>A sample peer and image library\<close>

definition files0 :: "string \<rightharpoonup> bytes" where
  "files0 = disk cache0"

definition sharp0 :: "bytes \<Rightarrow> bool \<Rightarrow> int \<Rightarrow> int \<Rightarrow> bytes option" where
  "sharp0 src flatten q d = (if take 1 src = [0xFF] then Some (take (nat d) src) else None)"

definition link_up :: "nat \<Rightarrow> link_state" where
  "link_up k = Up"

text \<open>A peer that goes away after the first frame.\<close>

definition link_drop :: "nat \<Rightarrow> link_state" where
  "link_drop k = (if k = 0 then Up else Down)"

section \<open>Verification: the authentication handshake\<close>

lemma validate_format:
  "\<not> (\<exists>s. v = JStr s \<and> hex64 s) \<Longrightarrow> validateToken now tf tm v = (Invalid INVALID_FORMAT, tm)"
  by (cases v) (auto simp: validateToken_def)

lemma validate_not_found:
  "hex64 s \<Longrightarrow> find (\<lambda>t. token t = s) (fst (readTokens now tf tm)) = None \<Longrightarrow>
   validateToken now tf tm (JStr s) = (Invalid TOKEN_NOT_FOUND, snd (readTokens now tf tm))"
  by (auto simp: validateToken_def hex64_def split: prod.splits)

lemma validate_found:
  "hex64 s \<Longrightarrow> find (\<lambda>t. token t = s) (fst (readTokens now tf tm)) = Some t \<Longrightarrow>
   validateToken now tf tm (JStr s) =
     (if \<not> active t then Invalid TOKEN_REVOKED
      else if expiresAt t < now then Invalid TOKEN_EXPIRED else Valid t, snd (readTokens now tf tm))"
  by (auto simp: validateToken_def hex64_def split: prod.splits)

lemma mw_denied:
  "checkRateLimit now (authAttempts srv) (address hs) = (Denied r, m) \<Longrightarrow>
   authMiddleware now tf srv hs = (Inl (RATE_LIMIT_EXCEEDED r), srv\<lparr>authAttempts := m\<rparr>)"
  by (simp add: authMiddleware_def)

lemma mw_bad_format:
  "checkRateLimit now (authAttempts srv) (address hs) = (Allowed, m) \<Longrightarrow>
   \<not> (\<exists>s. auth_token hs = JStr s \<and> hex64 s) \<Longrightarrow>
   authMiddleware now tf srv hs = (Inl INVALID_TOKEN, srv\<lparr>authAttempts := m\<rparr>)"
  by (cases "auth_token hs") (auto simp: authMiddleware_def hex64_def Let_def)

lemma mw_invalid:
  "checkRateLimit now (authAttempts srv) (address hs) = (Allowed, m) \<Longrightarrow>
   auth_token hs = JStr s \<Longrightarrow> hex64 s \<Longrightarrow>
   validateToken now tf (tokenManager srv) (JStr s) = (Invalid r, tm') \<Longrightarrow>
   authMiddleware now tf srv hs = (Inl r, srv\<lparr>authAttempts := m, tokenManager := tm'\<rparr>)"
  by (auto simp: authMiddleware_def hex64_def Let_def)

lemma mw_valid:
  "checkRateLimit now (authAttempts srv) (address hs) = (Allowed, m) \<Longrightarrow>
   auth_token hs = JStr s \<Longrightarrow> hex64 s \<Longrightarrow>
   validateToken now tf (tokenManager srv) (JStr s) = (Valid t, tm') \<Longrightarrow>
   \<exists>d. authMiddleware now tf srv hs = (Inr d, srv\<lparr>authAttempts := m, tokenManager := tm'\<rparr>)
     \<and> authToken d = s \<and> authenticated d"
  by (auto simp: authMiddleware_def hex64_def Let_def)

lemma mw_sockets: "sockets (snd (authMiddleware now tf srv hs)) = sockets srv"
proof (cases "checkRateLimit now (authAttempts srv) (address hs)")
  case (Pair rc m)
  show ?thesis
  proof (cases rc)
    case (Denied r) with Pair show ?thesis by (simp add: mw_denied)
  next
    case Allowed
    show ?thesis
    proof (cases "\<exists>s. auth_token hs = JStr s \<and> hex64 s")
      case False with Pair Allowed show ?thesis by (simp add: mw_bad_format)
    next
      case True
      then obtain s where s: "auth_token hs = JStr s" "hex64 s" by blast
      obtain v tm' where v: "validateToken now tf (tokenManager srv) (JStr s) = (v, tm')"
        by (cases "validateToken now tf (tokenManager srv) (JStr s)")
      show ?thesis
      proof (cases v)
        case (Invalid r)
        with Pair Allowed s v show ?thesis by (simp add: mw_invalid)
      next
        case (Valid t)
        with Pair Allowed s v mw_valid[where now=now and srv=srv and hs=hs and m=m and s=s and tf=tf and t=t and tm'="tm'"] show ?thesis by auto
      qed
    qed
  qed
qed

lemma connect_rejected_sockets:
  "fst (connect now tf srv sid hs) = Inl r \<Longrightarrow> sockets (snd (connect now tf srv sid hs)) = sockets srv"
  using mw_sockets[where now=now and tf=tf and srv=srv and hs=hs]
  by (cases "authMiddleware now tf srv hs") (auto simp: connect_def split: sum.splits)

lemma auth_allowed_valid:
  assumes "fst (checkRateLimit now (authAttempts srv) (address hs)) = Allowed"
    and "auth_token hs = JStr s" and "hex64 s"
    and "find (\<lambda>t. token t = s) (fst (readTokens now tf (tokenManager srv))) = Some t"
    and "active t" and "\<not> expiresAt t < now"
  shows "fst (connect now tf srv sid hs) = Inr ()"
proof -
  obtain m where m: "checkRateLimit now (authAttempts srv) (address hs) = (Allowed, m)"
    using assms(1) by (cases "checkRateLimit now (authAttempts srv) (address hs)") simp
  have "validateToken now tf (tokenManager srv) (JStr s)
      = (Valid t, snd (readTokens now tf (tokenManager srv)))"
    using assms by (simp add: validate_found)
  from mw_valid[OF m assms(2,3) this] obtain d where
    "authMiddleware now tf srv hs = (Inr d, srv\<lparr>authAttempts := m,
        tokenManager := snd (readTokens now tf (tokenManager srv))\<rparr>)" by blast
  then show ?thesis by (simp add: connect_def)
qed

lemma auth_allowed_cases:
  assumes rate: "fst (checkRateLimit now (authAttempts srv) (address hs)) = Allowed"
  shows
  "(\<not> (\<exists>s. auth_token hs = JStr s \<and> hex64 s) \<longrightarrow>
       (\<forall>tf'. fst (connect now tf' srv sid hs) = Inl INVALID_TOKEN
            \<and> tokenManager (snd (connect now tf' srv sid hs)) = tokenManager srv))
   \<and> (\<forall>s. auth_token hs = JStr s \<and> hex64 s \<longrightarrow>
        (case find (\<lambda>t. token t = s) (fst (readTokens now tf (tokenManager srv))) of
           None \<Rightarrow> fst (connect now tf srv sid hs) = Inl TOKEN_NOT_FOUND
         | Some t \<Rightarrow>
             (\<not> active t \<longrightarrow> fst (connect now tf srv sid hs) = Inl TOKEN_REVOKED)
           \<and> (active t \<and> expiresAt t < now \<longrightarrow>
                 fst (connect now tf srv sid hs) = Inl TOKEN_EXPIRED)
           \<and> (active t \<and> \<not> expiresAt t < now \<longrightarrow>
                 fst (connect now tf srv sid hs) = Inr ())))"
proof -
  obtain m where m: "checkRateLimit now (authAttempts srv) (address hs) = (Allowed, m)"
    using rate by (cases "checkRateLimit now (authAttempts srv) (address hs)") simp
  have A: "\<not> (\<exists>s. auth_token hs = JStr s \<and> hex64 s) \<longrightarrow>
       (\<forall>tf'. fst (connect now tf' srv sid hs) = Inl INVALID_TOKEN
            \<and> tokenManager (snd (connect now tf' srv sid hs)) = tokenManager srv)"
    using m by (simp add: connect_def mw_bad_format)
  have B: "\<forall>s. auth_token hs = JStr s \<and> hex64 s \<longrightarrow>
        (case find (\<lambda>t. token t = s) (fst (readTokens now tf (tokenManager srv))) of
           None \<Rightarrow> fst (connect now tf srv sid hs) = Inl TOKEN_NOT_FOUND
         | Some t \<Rightarrow>
             (\<not> active t \<longrightarrow> fst (connect now tf srv sid hs) = Inl TOKEN_REVOKED)
           \<and> (active t \<and> expiresAt t < now \<longrightarrow>
                 fst (connect now tf srv sid hs) = Inl TOKEN_EXPIRED)
           \<and> (active t \<and> \<not> expiresAt t < now \<longrightarrow>
                 fst (connect now tf srv sid hs) = Inr ()))"
  proof (intro allI impI)
    fix s assume s: "auth_token hs = JStr s \<and> hex64 s"
    show "case find (\<lambda>t. token t = s) (fst (readTokens now tf (tokenManager srv))) of
           None \<Rightarrow> fst (connect now tf srv sid hs) = Inl TOKEN_NOT_FOUND
         | Some t \<Rightarrow>
             (\<not> active t \<longrightarrow> fst (connect now tf srv sid hs) = Inl TOKEN_REVOKED)
           \<and> (active t \<and> expiresAt t < now \<longrightarrow>
                 fst (connect now tf srv sid hs) = Inl TOKEN_EXPIRED)
           \<and> (active t \<and> \<not> expiresAt t < now \<longrightarrow>
                 fst (connect now tf srv sid hs) = Inr ())"
    proof (cases "find (\<lambda>t. token t = s) (fst (readTokens now tf (tokenManager srv)))")
      case None
      with s m show ?thesis
        by (simp add: connect_def mw_invalid[OF m _ _ validate_not_found])
    next
      case (Some t)
      have v: "validateToken now tf (tokenManager srv) (JStr s) =
         (if \<not> active t then Invalid TOKEN_REVOKED
          else if expiresAt t < now then Invalid TOKEN_EXPIRED else Valid t,
          snd (readTokens now tf (tokenManager srv)))"
        using s Some by (simp add: validate_found)
      have r: "\<not> active t \<longrightarrow> fst (connect now tf srv sid hs) = Inl TOKEN_REVOKED"
        using s v by (simp add: connect_def mw_invalid[OF m])
      have e: "active t \<and> expiresAt t < now \<longrightarrow>
                 fst (connect now tf srv sid hs) = Inl TOKEN_EXPIRED"
        using s v by (simp add: connect_def mw_invalid[OF m])
      have ok: "active t \<and> \<not> expiresAt t < now \<longrightarrow> fst (connect now tf srv sid hs) = Inr ()"
      proof
        assume a: "active t \<and> \<not> expiresAt t < now"
        with v have "validateToken now tf (tokenManager srv) (JStr s)
            = (Valid t, snd (readTokens now tf (tokenManager srv)))" by simp
        from mw_valid[OF m _ _ this] s obtain d where
          "authMiddleware now tf srv hs = (Inr d, srv\<lparr>authAttempts := m,
              tokenManager := snd (readTokens now tf (tokenManager srv))\<rparr>)" by blast
        then show "fst (connect now tf srv sid hs) = Inr ()" by (simp add: connect_def)
      qed
      from Some r e ok show ?thesis by simp
    qed
  qed
  from A B show ?thesis by (rule conjI)
qed

lemma connect_denied:
  assumes "fst (checkRateLimit now (authAttempts srv) (address hs)) = Denied r"
  shows "fst (connect now tf srv sid hs) = Inl (RATE_LIMIT_EXCEEDED r)"
proof -
  obtain m where m: "checkRateLimit now (authAttempts srv) (address hs) = (Denied r, m)"
    using assms by (cases "checkRateLimit now (authAttempts srv) (address hs)") simp
  show ?thesis by (simp add: connect_def mw_denied[OF m])
qed

lemma connect_never_invalid_format:
  "fst (connect now tf srv sid hs) \<noteq> Inl INVALID_FORMAT"
proof (cases "fst (checkRateLimit now (authAttempts srv) (address hs))")
  case (Denied r)
  then show ?thesis by (simp add: connect_denied)
next
  case Allowed
  note T = auth_allowed_cases[OF Allowed, where tf = tf and sid = sid]
  show ?thesis
  proof (cases "\<exists>s. auth_token hs = JStr s \<and> hex64 s")
    case False
    with T have "fst (connect now tf srv sid hs) = Inl INVALID_TOKEN" by blast
    then show ?thesis by simp
  next
    case True
    then obtain s where s: "auth_token hs = JStr s \<and> hex64 s" by blast
    note B = T[THEN conjunct2, rule_format, OF s]
    show ?thesis
    proof (cases "find (\<lambda>t. token t = s) (fst (readTokens now tf (tokenManager srv)))")
      case None
      with B show ?thesis by simp
    next
      case (Some t)
      with B have c: "(\<not> active t \<longrightarrow> fst (connect now tf srv sid hs) = Inl TOKEN_REVOKED)
           \<and> (active t \<and> expiresAt t < now \<longrightarrow>
                 fst (connect now tf srv sid hs) = Inl TOKEN_EXPIRED)
           \<and> (active t \<and> \<not> expiresAt t < now \<longrightarrow>
                 fst (connect now tf srv sid hs) = Inr ())" by simp
      show ?thesis
      proof (cases "active t")
        case False with c show ?thesis by simp
      next
        case True
        show ?thesis
        proof (cases "expiresAt t < now")
          case True with \<open>active t\<close> c show ?thesis by simp
        next
          case False with \<open>active t\<close> c show ?thesis by simp
        qed
      qed
    qed
  qed
qed

text \<open>
  Claim C2, as the code has it. A handshake that the rate limiter turns away is rejected
  with \<open>RATE_LIMIT_EXCEEDED\<close>. A handshake that it lets through is rejected for the first
  reason that applies, in this order: a credential that is missing, not a string, not 64
  characters long or not hexadecimal is rejected by the middleware's own format guard with
  the reason \<open>INVALID_TOKEN\<close>, whatever the token store holds and without reading it;
  otherwise a credential that matches no stored token gives \<open>TOKEN_NOT_FOUND\<close>; otherwise
  an inactive match gives \<open>TOKEN_REVOKED\<close> (expired or not); otherwise an active match
  whose \<open>expiresAt\<close> lies in the past gives \<open>TOKEN_EXPIRED\<close>; otherwise the connection
  is accepted. No handshake is ever rejected with \<open>INVALID_FORMAT\<close>, the reason of the
  token manager's format check. A rejected handshake, for any reason, leaves the set of
  live sockets as it was: \<open>handleConnection\<close> never runs.
\<close>

theorem auth_rejection_priority:
  "(\<forall>r. fst (checkRateLimit now (authAttempts srv) (address hs)) = Denied r \<longrightarrow>
        fst (connect now tf srv sid hs) = Inl (RATE_LIMIT_EXCEEDED r))
   \<and> (fst (checkRateLimit now (authAttempts srv) (address hs)) = Allowed \<longrightarrow>
        (\<not> (\<exists>s. auth_token hs = JStr s \<and> hex64 s) \<longrightarrow>
           (\<forall>tf'. fst (connect now tf' srv sid hs) = Inl INVALID_TOKEN
                \<and> tokenManager (snd (connect now tf' srv sid hs)) = tokenManager srv))
      \<and> (\<forall>s. auth_token hs = JStr s \<and> hex64 s \<longrightarrow>
           (case find (\<lambda>t. token t = s) (fst (readTokens now tf (tokenManager srv))) of
              None \<Rightarrow> fst (connect now tf srv sid hs) = Inl TOKEN_NOT_FOUND
            | Some t \<Rightarrow>
                (\<not> active t \<longrightarrow> fst (connect now tf srv sid hs) = Inl TOKEN_REVOKED)
              \<and> (active t \<and> expiresAt t < now \<longrightarrow>
                    fst (connect now tf srv sid hs) = Inl TOKEN_EXPIRED)
              \<and> (active t \<and> \<not> expiresAt t < now \<longrightarrow>
                    fst (connect now tf srv sid hs) = Inr ()))))
   \<and> fst (connect now tf srv sid hs) \<noteq> Inl INVALID_FORMAT
   \<and> (\<forall>r. fst (connect now tf srv sid hs) = Inl r \<longrightarrow>
          sockets (snd (connect now tf srv sid hs)) = sockets srv)"
proof (intro conjI)
  show "\<forall>r. fst (checkRateLimit now (authAttempts srv) (address hs)) = Denied r \<longrightarrow>
        fst (connect now tf srv sid hs) = Inl (RATE_LIMIT_EXCEEDED r)"
    by (intro allI impI) (rule connect_denied)
  show "fst (checkRateLimit now (authAttempts srv) (address hs)) = Allowed \<longrightarrow>
        (\<not> (\<exists>s. auth_token hs = JStr s \<and> hex64 s) \<longrightarrow>
           (\<forall>tf'. fst (connect now tf' srv sid hs) = Inl INVALID_TOKEN
                \<and> tokenManager (snd (connect now tf' srv sid hs)) = tokenManager srv))
      \<and> (\<forall>s. auth_token hs = JStr s \<and> hex64 s \<longrightarrow>
           (case find (\<lambda>t. token t = s) (fst (readTokens now tf (tokenManager srv))) of
              None \<Rightarrow> fst (connect now tf srv sid hs) = Inl TOKEN_NOT_FOUND
            | Some t \<Rightarrow>
                (\<not> active t \<longrightarrow> fst (connect now tf srv sid hs) = Inl TOKEN_REVOKED)
              \<and> (active t \<and> expiresAt t < now \<longrightarrow>
                    fst (connect now tf srv sid hs) = Inl TOKEN_EXPIRED)
              \<and> (active t \<and> \<not> expiresAt t < now \<longrightarrow>
                    fst (connect now tf srv sid hs) = Inr ())))"
    by (rule impI) (rule auth_allowed_cases)
  show "fst (connect now tf srv sid hs) \<noteq> Inl INVALID_FORMAT"
    by (rule connect_never_invalid_format)
  show "\<forall>r. fst (connect now tf srv sid hs) = Inl r \<longrightarrow>
          sockets (snd (connect now tf srv sid hs)) = sockets srv"
    by (intro allI impI) (rule connect_rejected_sockets)
qed

lemmas fixture_defs = tok_a_def tok_b_def tok_c_def tok_d_def dev_a_def dev_b_def dev_c_def
  file0_def srv0_def hs_of_def

text \<open>
  The cases on sample data: one store and five credentials, then a sixth handshake from an
  address that has used up its attempts.
\<close>

theorem auth_rejection_priority_witness:
  "fst (checkRateLimit 1000000 (authAttempts srv0) (address (hs_of (JStr ''xyz'')))) = Allowed
   \<and> \<not> (\<exists>s. auth_token (hs_of (JStr ''xyz'')) = JStr s \<and> hex64 s)
   \<and> fst (connect 1000000 file0 srv0 ''s1'' (hs_of (JStr ''xyz''))) = Inl INVALID_TOKEN
   \<and> hex64 tok_d
   \<and> find (\<lambda>t. token t = tok_d) (fst (readTokens 1000000 file0 (tokenManager srv0))) = None
   \<and> fst (connect 1000000 file0 srv0 ''s1'' (hs_of (JStr tok_d))) = Inl TOKEN_NOT_FOUND
   \<and> hex64 tok_b
   \<and> find (\<lambda>t. token t = tok_b) (fst (readTokens 1000000 file0 (tokenManager srv0))) = Some dev_b
   \<and> \<not> active dev_b \<and> expiresAt dev_b < 1000000
   \<and> fst (connect 1000000 file0 srv0 ''s1'' (hs_of (JStr tok_b))) = Inl TOKEN_REVOKED
   \<and> hex64 tok_c
   \<and> find (\<lambda>t. token t = tok_c) (fst (readTokens 1000000 file0 (tokenManager srv0))) = Some dev_c
   \<and> active dev_c \<and> expiresAt dev_c < 1000000
   \<and> fst (connect 1000000 file0 srv0 ''s1'' (hs_of (JStr tok_c))) = Inl TOKEN_EXPIRED
   \<and> sockets (snd (connect 1000000 file0 srv0 ''s1'' (hs_of (JStr tok_c)))) = sockets srv0
   \<and> hex64 tok_a
   \<and> find (\<lambda>t. token t = tok_a) (fst (readTokens 1000000 file0 (tokenManager srv0))) = Some dev_a
   \<and> active dev_a \<and> \<not> expiresAt dev_a < 1000000
   \<and> fst (connect 1000000 file0 srv0 ''s1'' (hs_of (JStr tok_a))) = Inr ()
   \<and> fst (checkRateLimit 600000 (authAttempts srv_limited) (address (hs_of (JStr tok_a))))
       = Denied 300
   \<and> fst (connect 600000 file0 srv_limited ''s1'' (hs_of (JStr tok_a)))
       = Inl (RATE_LIMIT_EXCEEDED 300)"
proof -
  have r: "fst (checkRateLimit 1000000 (authAttempts srv0) (address (hs_of v))) = Allowed" for v
    by (simp add: checkRateLimit_def srv0_def hs_of_def MAX_AUTH_ATTEMPTS_def Let_def)
  have hx: "hex64 tok_a" "hex64 tok_b" "hex64 tok_c" "hex64 tok_d"
    by (simp_all add: hex64_def is_hex_def fixture_defs)
  have nx: "\<not> (\<exists>s. auth_token (hs_of (JStr ''xyz'')) = JStr s \<and> hex64 s)"
    by (simp add: hs_of_def hex64_def)
  have rt: "fst (readTokens 1000000 file0 (tokenManager srv0)) = [dev_a, dev_b, dev_c]"
    by (simp add: readTokens_def file0_def srv0_def Let_def)
  have fa: "find (\<lambda>t. token t = tok_a) [dev_a, dev_b, dev_c] = Some dev_a"
    and fb: "find (\<lambda>t. token t = tok_b) [dev_a, dev_b, dev_c] = Some dev_b"
    and fc: "find (\<lambda>t. token t = tok_c) [dev_a, dev_b, dev_c] = Some dev_c"
    and fd: "find (\<lambda>t. token t = tok_d) [dev_a, dev_b, dev_c] = None"
    by (simp_all add: fixture_defs)
  have st: "\<not> active dev_b" "expiresAt dev_b < 1000000" "active dev_c"
    "expiresAt dev_c < 1000000" "active dev_a" "\<not> expiresAt dev_a < 1000000"
    by (simp_all add: fixture_defs)
  have at: "auth_token (hs_of v) = v" for v by (simp add: hs_of_def)
  have T: "(\<not> (\<exists>s. auth_token (hs_of v) = JStr s \<and> hex64 s) \<longrightarrow>
           (\<forall>tf'. fst (connect 1000000 tf' srv0 ''s1'' (hs_of v)) = Inl INVALID_TOKEN
                \<and> tokenManager (snd (connect 1000000 tf' srv0 ''s1'' (hs_of v))) = tokenManager srv0))
      \<and> (\<forall>s. auth_token (hs_of v) = JStr s \<and> hex64 s \<longrightarrow>
           (case find (\<lambda>t. token t = s) (fst (readTokens 1000000 file0 (tokenManager srv0))) of
              None \<Rightarrow> fst (connect 1000000 file0 srv0 ''s1'' (hs_of v)) = Inl TOKEN_NOT_FOUND
            | Some t \<Rightarrow>
                (\<not> active t \<longrightarrow> fst (connect 1000000 file0 srv0 ''s1'' (hs_of v)) = Inl TOKEN_REVOKED)
              \<and> (active t \<and> expiresAt t < 1000000 \<longrightarrow>
                    fst (connect 1000000 file0 srv0 ''s1'' (hs_of v)) = Inl TOKEN_EXPIRED)
              \<and> (active t \<and> \<not> expiresAt t < 1000000 \<longrightarrow>
                    fst (connect 1000000 file0 srv0 ''s1'' (hs_of v)) = Inr ())))" for v
    using auth_rejection_priority[where now = 1000000 and srv = srv0 and hs = "hs_of v"
        and tf = file0 and sid = "''s1''", THEN conjunct2, THEN conjunct1] r[of v]
    by (rule mp)
  have c0: "fst (connect 1000000 file0 srv0 ''s1'' (hs_of (JStr ''xyz''))) = Inl INVALID_TOKEN"
    using T[of "JStr ''xyz''"] nx by blast
  have cd: "fst (connect 1000000 file0 srv0 ''s1'' (hs_of (JStr tok_d))) = Inl TOKEN_NOT_FOUND"
    using T[of "JStr tok_d"] hx fd by (simp add: rt at)
  have cb: "fst (connect 1000000 file0 srv0 ''s1'' (hs_of (JStr tok_b))) = Inl TOKEN_REVOKED"
    using T[of "JStr tok_b"] hx fb st by (simp add: rt at)
  have cc: "fst (connect 1000000 file0 srv0 ''s1'' (hs_of (JStr tok_c))) = Inl TOKEN_EXPIRED"
    using T[of "JStr tok_c"] hx fc st by (simp add: rt at)
  have cs: "sockets (snd (connect 1000000 file0 srv0 ''s1'' (hs_of (JStr tok_c)))) = sockets srv0"
    using auth_rejection_priority[where now = 1000000 and srv = srv0
        and hs = "hs_of (JStr tok_c)" and tf = file0 and sid = "''s1''",
        THEN conjunct2, THEN conjunct2, THEN conjunct2, rule_format, OF cc] .
  have ca: "fst (connect 1000000 file0 srv0 ''s1'' (hs_of (JStr tok_a))) = Inr ()"
    using T[of "JStr tok_a"] hx fa st by (simp add: rt at)
  have dn: "fst (checkRateLimit 600000 (authAttempts srv_limited) (address (hs_of (JStr tok_a))))
       = Denied 300"
    by (simp add: checkRateLimit_def srv_limited_def srv0_def hs_of_def MAX_AUTH_ATTEMPTS_def
        Let_def ceil_seconds_def)
  have cl: "fst (connect 600000 file0 srv_limited ''s1'' (hs_of (JStr tok_a)))
       = Inl (RATE_LIMIT_EXCEEDED 300)"
    using auth_rejection_priority[where now = 600000 and srv = srv_limited
        and hs = "hs_of (JStr tok_a)" and tf = file0 and sid = "''s1''",
        THEN conjunct1, rule_format, OF dn] .
  show ?thesis
    using r[of "JStr ''xyz''"] nx c0 hx fd cd fb st cb fc cc cs fa ca dn cl by (simp add: rt)
qed

text \<open>
  Claim C2 as stated fails: a handshake whose credential has the wrong length, or is
  missing, is rejected with \<open>INVALID_TOKEN\<close>, not with \<open>INVALID_FORMAT\<close>.
\<close>

theorem handshake_format_reason:
  "fst (connect 1000000 file0 srv0 ''s1'' (hs_of (JStr ''xyz''))) = Inl INVALID_TOKEN
   \<and> fst (connect 1000000 file0 srv0 ''s1'' (hs_of JUndefined)) = Inl INVALID_TOKEN
   \<and> fst (connect 1000000 file0 srv0 ''s1'' (hs_of (JStr ''xyz''))) \<noteq> Inl INVALID_FORMAT"
proof -
  have r: "checkRateLimit 1000000 (authAttempts srv0) (address (hs_of v))
      = (Allowed, [''10.0.0.7'' \<mapsto> \<lparr>count = 1, resetAt = 1000000 + AUTH_WINDOW\<rparr>])" for v
    by (simp add: checkRateLimit_def srv0_def hs_of_def MAX_AUTH_ATTEMPTS_def Let_def)
  have n1: "\<not> (\<exists>s. auth_token (hs_of (JStr ''xyz'')) = JStr s \<and> hex64 s)"
    by (simp add: hs_of_def hex64_def)
  have n2: "\<not> (\<exists>s. auth_token (hs_of JUndefined) = JStr s \<and> hex64 s)"
    by (simp add: hs_of_def)
  have a: "fst (connect 1000000 file0 srv0 ''s1'' (hs_of (JStr ''xyz''))) = Inl INVALID_TOKEN"
    by (simp add: connect_def mw_bad_format[OF r n1])
  have b: "fst (connect 1000000 file0 srv0 ''s1'' (hs_of JUndefined)) = Inl INVALID_TOKEN"
    by (simp add: connect_def mw_bad_format[OF r n2])
  have c: "fst (connect 1000000 file0 srv0 ''s1'' (hs_of (JStr ''xyz''))) \<noteq> Inl INVALID_FORMAT"
    unfolding a by simp
  from a b c show ?thesis by (intro conjI)
qed

lemma ceil_seconds_nonneg: "0 \<le> ms \<Longrightarrow> 0 \<le> ceil_seconds ms"
  unfolding ceil_seconds_def using zdiv_mono1[of "- ms" 0 1000] by simp

lemma ceil_seconds_pos: "0 < ms \<Longrightarrow> 0 < ceil_seconds ms"
  unfolding ceil_seconds_def by (simp add: pos_imp_zdiv_neg_iff)

lemma rate_in_window:
  assumes "m ip = Some a" "resetAt a \<ge> now"
  shows "checkRateLimit now m ip =
    (if count a + 1 > MAX_AUTH_ATTEMPTS then Denied (ceil_seconds (resetAt a - now)) else Allowed,
     m(ip \<mapsto> a\<lparr>count := count a + 1\<rparr>))"
  using assms by (simp add: checkRateLimit_def Let_def)

lemma rate_new_window:
  assumes "m ip = None \<or> (\<exists>a. m ip = Some a \<and> resetAt a < now)"
  shows "checkRateLimit now m ip = (Allowed, m(ip \<mapsto> \<lparr>count = 1, resetAt = now + AUTH_WINDOW\<rparr>))"
  using assms by (auto simp: checkRateLimit_def Let_def MAX_AUTH_ATTEMPTS_def)

text \<open>
  Claim C3, as the code has it. The window of an address is the entry \<open>{count, resetAt}\<close>
  that its first attempt after the previous window created; it is fixed, not sliding. Once
  that entry counts \<open>MAX_AUTH_ATTEMPTS\<close> attempts, every further attempt made no later
  than \<open>resetAt\<close> is rejected with \<open>RATE_LIMIT_EXCEEDED\<close> carrying
  \<open>ceil((resetAt - now) / 1000)\<close> seconds, which is never negative and is strictly
  positive whenever \<open>now < resetAt\<close>. The rejection does not depend on the credential or
  on the token store, reads neither, creates no session, and counts the attempt, so the
  next one is rejected in the same way.
\<close>

theorem rate_limit_rejects:
  assumes "authAttempts srv (address hs) = Some a"
    and "MAX_AUTH_ATTEMPTS \<le> count a"
    and "now \<le> resetAt a"
  shows "fst (connect now tf srv sid hs) = Inl (RATE_LIMIT_EXCEEDED (ceil_seconds (resetAt a - now)))
    \<and> 0 \<le> ceil_seconds (resetAt a - now)
    \<and> (now < resetAt a \<longrightarrow> 0 < ceil_seconds (resetAt a - now))
    \<and> snd (connect now tf srv sid hs)
        = srv\<lparr>authAttempts := (authAttempts srv)(address hs \<mapsto> a\<lparr>count := count a + 1\<rparr>)\<rparr>"
proof -
  have rc: "checkRateLimit now (authAttempts srv) (address hs)
      = (Denied (ceil_seconds (resetAt a - now)),
         (authAttempts srv)(address hs \<mapsto> a\<lparr>count := count a + 1\<rparr>))"
    using assms by (simp add: rate_in_window)
  have mw: "authMiddleware now tf srv hs
      = (Inl (RATE_LIMIT_EXCEEDED (ceil_seconds (resetAt a - now))),
         srv\<lparr>authAttempts := (authAttempts srv)(address hs \<mapsto> a\<lparr>count := count a + 1\<rparr>)\<rparr>)"
    by (rule mw_denied[OF rc])
  have c: "connect now tf srv sid hs
      = (Inl (RATE_LIMIT_EXCEEDED (ceil_seconds (resetAt a - now))),
         srv\<lparr>authAttempts := (authAttempts srv)(address hs \<mapsto> a\<lparr>count := count a + 1\<rparr>)\<rparr>)"
    by (simp add: connect_def mw)
  have n: "0 \<le> ceil_seconds (resetAt a - now)"
    using assms(3) by (simp add: ceil_seconds_nonneg)
  have p: "now < resetAt a \<longrightarrow> 0 < ceil_seconds (resetAt a - now)"
    by (simp add: ceil_seconds_pos)
  from c n p show ?thesis by simp
qed

theorem rate_limit_rejects_witness:
  "authAttempts srv_limited (address (hs_of (JStr tok_a))) = Some \<lparr>count = 10, resetAt = 900000\<rparr>
   \<and> MAX_AUTH_ATTEMPTS \<le> count \<lparr>count = 10, resetAt = 900000\<rparr>
   \<and> (600000::int) \<le> resetAt \<lparr>count = 10, resetAt = 900000\<rparr>
   \<and> fst (connect 600000 file0 srv_limited ''s1'' (hs_of (JStr tok_a)))
       = Inl (RATE_LIMIT_EXCEEDED 300)
   \<and> fst (connect 600000 file0 srv0 ''s1'' (hs_of (JStr tok_a))) = Inr ()"
proof -
  have a: "authAttempts srv_limited (address (hs_of (JStr tok_a)))
      = Some \<lparr>count = 10, resetAt = 900000\<rparr>"
    by (simp add: srv_limited_def hs_of_def)
  have b: "MAX_AUTH_ATTEMPTS \<le> count \<lparr>count = 10, resetAt = 900000\<rparr>"
    by (simp add: MAX_AUTH_ATTEMPTS_def)
  have c: "(600000::int) \<le> resetAt \<lparr>count = 10, resetAt = 900000\<rparr>" by simp
  have d: "fst (connect 600000 file0 srv_limited ''s1'' (hs_of (JStr tok_a)))
       = Inl (RATE_LIMIT_EXCEEDED 300)"
    using rate_limit_rejects[OF a b c, where tf = file0 and sid = "''s1''"]
    by (simp add: ceil_seconds_def)
  have r: "fst (checkRateLimit 600000 (authAttempts srv0) (address (hs_of (JStr tok_a)))) = Allowed"
    by (simp add: checkRateLimit_def srv0_def hs_of_def MAX_AUTH_ATTEMPTS_def Let_def)
  have rt: "fst (readTokens 600000 file0 (tokenManager srv0)) = [dev_a, dev_b, dev_c]"
    by (simp add: readTokens_def file0_def srv0_def Let_def)
  have hx: "hex64 tok_a" by (simp add: hex64_def is_hex_def tok_a_def)
  have fa: "find (\<lambda>t. token t = tok_a) [dev_a, dev_b, dev_c] = Some dev_a"
    by (simp add: fixture_defs)
  have st: "active dev_a" "\<not> expiresAt dev_a < 600000" by (simp_all add: dev_a_def)
  have e: "fst (connect 600000 file0 srv0 ''s1'' (hs_of (JStr tok_a))) = Inr ()"
    using auth_allowed_valid[OF r, where tf = file0 and sid = "''s1''" and s = tok_a and t = dev_a]
      hx fa st by (simp add: rt hs_of_def)
  from a b c d e show ?thesis by simp
qed

text \<open>
  Claim C3 as stated fails at the last millisecond of a window: the attempt is rejected
  and the retry-after value it carries is zero.
\<close>

theorem rate_limit_retry_after_zero:
  "fst (checkRateLimit 900000 [''10.0.0.7'' \<mapsto> \<lparr>count = 11, resetAt = 900000\<rparr>] ''10.0.0.7'') = Denied 0"
  by (simp add: checkRateLimit_def Let_def MAX_AUTH_ATTEMPTS_def ceil_seconds_def)

lemma rate_step_in:
  "m ip = Some a \<Longrightarrow> now \<le> resetAt a \<Longrightarrow> count a < MAX_AUTH_ATTEMPTS \<Longrightarrow>
   checkRateLimit now m ip = (Allowed, m(ip \<mapsto> a\<lparr>count := count a + 1\<rparr>))"
  by (simp add: rate_in_window)

text \<open>
  The window is fixed: nine attempts in the last millisecond of a window and three more
  in the next millisecond, twelve within two milliseconds, are all let through.
\<close>

lemma rate_limit_window_restarts:
  "fst (rate_run Map.empty ''10.0.0.7''
     [0, 900000, 900000, 900000, 900000, 900000, 900000, 900000, 900000, 900000,
      900001, 900001, 900001])
   = [Allowed, Allowed, Allowed, Allowed, Allowed, Allowed, Allowed, Allowed, Allowed, Allowed,
      Allowed, Allowed, Allowed]"
  by (simp add: rate_new_window rate_step_in MAX_AUTH_ATTEMPTS_def AUTH_WINDOW_def)

section \<open>Verification: revocation of live sessions\<close>

lemma read_fresh: "fst (readTokens now tf fresh) = file_tokens tf"
  by (simp add: readTokens_def fresh_def file_tokens_def Let_def split: token_file.splits option.splits)

lemma refresh_reads:
  assumes "CACHE_TTL \<le> now"
  shows "fst (refreshCache now tf tm) = file_tokens tf"
  using assms
  by (simp add: refreshCache_def readTokens_def file_tokens_def Let_def CACHE_TTL_def
      split: token_file.splits option.splits)

lemma refresh_stable:
  assumes "CACHE_TTL \<le> now" and "tm1 = snd (refreshCache now tf tm)"
  shows "readTokens now tf tm1 = (file_tokens tf, tm1)"
  using assms
  by (simp add: refreshCache_def readTokens_def file_tokens_def Let_def CACHE_TTL_def
      split: token_file.splits option.splits)

lemma validate_snd_read:
  "snd (validateToken now tf tm v) = tm \<or> snd (validateToken now tf tm v) = snd (readTokens now tf tm)"
  by (cases v) (auto simp: validateToken_def split: prod.splits option.splits)

lemma validate_depends_on_read:
  assumes "fst (readTokens now tf tm) = fst (readTokens now tf tm')"
  shows "fst (validateToken now tf tm v) = fst (validateToken now tf tm' v)"
  using assms
  by (cases v) (auto simp: validateToken_def split: prod.splits option.splits)

lemma validate_after_refresh:
  assumes "CACHE_TTL \<le> now" and "tm1 = snd (refreshCache now tf tm)"
  shows "validateToken now tf tm1 v = (fst (validateToken now tf fresh v), tm1)"
proof -
  have r: "readTokens now tf tm1 = (file_tokens tf, tm1)" by (rule refresh_stable[OF assms])
  have "fst (validateToken now tf tm1 v) = fst (validateToken now tf fresh v)"
    by (rule validate_depends_on_read) (simp add: r read_fresh)
  moreover have "snd (validateToken now tf tm1 v) = tm1"
    using validate_snd_read[of now tf tm1 v] r by auto
  ultimately show ?thesis by (simp add: prod_eq_iff)
qed

lemma checkConnections_run:
  assumes st: "\<And>v. validateToken now tf tm1 v = (fst (validateToken now tf fresh v), tm1)"
    and tm: "tokenManager srv = tm1"
  shows "checkConnections now tf xs srv =
     srv\<lparr>wire := wire srv @ concat (map (revocation now tf) xs),
         sockets := filter (\<lambda>e. fst e \<notin> fst ` {x \<in> set xs. revocation now tf x \<noteq> []})
                      (sockets srv)\<rparr>"
  using tm
proof (induction xs arbitrary: srv)
  case Nil
  then show ?case by simp
next
  case (Cons x xs)
  obtain socketId s where x: "x = (socketId, s)" by (cases x)
  show ?case
  proof (cases "authenticated (data s)")
    case False
    then have r: "revocation now tf x = []" by (simp add: revocation_def x)
    have "{y \<in> set (x # xs). revocation now tf y \<noteq> []} = {y \<in> set xs. revocation now tf y \<noteq> []}"
      using r by auto
    with False r Cons show ?thesis by (simp add: x)
  next
    case True
    show ?thesis
    proof (cases "fst (validateToken now tf fresh (JStr (authToken (data s))))")
      case (Valid t)
      then have r: "revocation now tf x = []" using True by (simp add: revocation_def x)
      have e: "{y \<in> set (x # xs). revocation now tf y \<noteq> []} = {y \<in> set xs. revocation now tf y \<noteq> []}"
        using r by auto
      have upd: "srv\<lparr>tokenManager := tm1\<rparr> = srv" using Cons.prems by simp
      have "checkConnections now tf (x # xs) srv = checkConnections now tf xs srv"
        using True Valid Cons.prems by (simp add: x st upd)
      then show ?thesis using Cons.IH[OF Cons.prems] r e by simp
    next
      case (Invalid r)
      then have rv: "revocation now tf x = [(socketId, Emit (AuthRevoked r now)), (socketId, Disconnect)]"
        using True by (simp add: revocation_def x)
      have e: "{y \<in> set (x # xs). revocation now tf y \<noteq> []}
          = insert x {y \<in> set xs. revocation now tf y \<noteq> []}"
        using rv by auto
      have upd: "srv\<lparr>tokenManager := tm1\<rparr> = srv" using Cons.prems by simp
      let ?srv' = "srv\<lparr>wire := wire srv @ [(socketId, Emit (AuthRevoked r now)), (socketId, Disconnect)],
                        sockets := filter (\<lambda>e. fst e \<noteq> socketId) (sockets srv)\<rparr>"
      have step: "checkConnections now tf (x # xs) srv = checkConnections now tf xs ?srv'"
        using True Invalid Cons.prems by (simp add: x st upd)
      have tm': "tokenManager ?srv' = tm1" using Cons.prems by simp
      show ?thesis
        unfolding step Cons.IH[OF tm'] e
        using rv by (simp add: x conj_commute)
    qed
  qed
qed

lemma filter_by_id:
  assumes "distinct (map fst xs)"
  shows "filter (\<lambda>e. fst e \<notin> fst ` {x \<in> set xs. P x}) xs = filter (\<lambda>e. \<not> P e) xs"
proof (rule filter_cong[OF refl])
  fix e assume e: "e \<in> set xs"
  have inj: "inj_on fst (set xs)" using assms by (simp add: distinct_map)
  show "(fst e \<notin> fst ` {x \<in> set xs. P x}) = (\<not> P e)"
  proof
    assume "fst e \<notin> fst ` {x \<in> set xs. P x}"
    then show "\<not> P e" using e by auto
  next
    assume n: "\<not> P e"
    show "fst e \<notin> fst ` {x \<in> set xs. P x}"
    proof
      assume "fst e \<in> fst ` {x \<in> set xs. P x}"
      then obtain x where "x \<in> set xs" "P x" "fst x = fst e" by auto
      with inj e have "x = e" by (auto dest: inj_onD)
      with \<open>P x\<close> n show False by simp
    qed
  qed
qed

text \<open>
  Claim C8. When the watcher reports a change of the token file, the token cache is
  reloaded from the file (later reads see the file's tokens) and every live socket is
  re-validated against them. Each socket whose token no longer validates is sent
  \<open>auth:revoked\<close> with the reason and is disconnected right after, in that order, in
  the same run of the callback; the sockets that remain are exactly those whose token
  still validates, unchanged, and nothing is sent to them.
\<close>

theorem revocation_sweep:
  assumes ttl: "CACHE_TTL \<le> now"
    and ids: "distinct (map fst (sockets srv))"
  shows "wire (tokenFileWatcher ''change'' now tf srv)
           = wire srv @ concat (map (revocation now tf) (sockets srv))
       \<and> sockets (tokenFileWatcher ''change'' now tf srv)
           = filter (\<lambda>e. revocation now tf e = []) (sockets srv)
       \<and> fst (readTokens now tf (tokenManager (tokenFileWatcher ''change'' now tf srv)))
           = fst (readTokens now tf fresh)"
proof -
  define tm1 where "tm1 = snd (refreshCache now tf (tokenManager srv))"
  define srv1 where "srv1 = srv\<lparr>tokenManager := tm1\<rparr>"
  have st: "\<And>v. validateToken now tf tm1 v = (fst (validateToken now tf fresh v), tm1)"
    by (rule validate_after_refresh[OF ttl tm1_def])
  have w: "tokenFileWatcher ''change'' now tf srv = checkConnections now tf (sockets srv1) srv1"
    by (simp add: tokenFileWatcher_def checkAuthenticatedConnections_def srv1_def tm1_def
        split: prod.splits)
  have tm: "tokenManager srv1 = tm1" by (simp add: srv1_def)
  note run = checkConnections_run[where xs = "sockets srv1", OF st tm]
  have s1: "sockets srv1 = sockets srv" "wire srv1 = wire srv" by (simp_all add: srv1_def)
  have a: "wire (tokenFileWatcher ''change'' now tf srv)
           = wire srv @ concat (map (revocation now tf) (sockets srv))"
    unfolding w run by (simp add: s1)
  have b: "sockets (tokenFileWatcher ''change'' now tf srv)
           = filter (\<lambda>e. revocation now tf e = []) (sockets srv)"
    unfolding w run using filter_by_id[OF ids, of "\<lambda>e. revocation now tf e \<noteq> []"]
    by (simp add: s1)
  have c: "fst (readTokens now tf (tokenManager (tokenFileWatcher ''change'' now tf srv)))
           = fst (readTokens now tf fresh)"
    unfolding w run using refresh_stable[OF ttl tm1_def] by (simp add: tm read_fresh)
  from a b c show ?thesis by simp
qed

theorem revocation_sweep_witness:
  "CACHE_TTL \<le> 1000000 \<and> distinct (map fst (sockets srv_live))
   \<and> wire (tokenFileWatcher ''change'' 1000000 file0 srv_live)
       = [(''s2'', Emit (AuthRevoked TOKEN_REVOKED 1000000)), (''s2'', Disconnect),
          (''s3'', Emit (AuthRevoked TOKEN_EXPIRED 1000000)), (''s3'', Disconnect),
          (''s4'', Emit (AuthRevoked TOKEN_NOT_FOUND 1000000)), (''s4'', Disconnect)]
   \<and> sockets (tokenFileWatcher ''change'' 1000000 file0 srv_live) = [(''s1'', sock_of tok_a)]"
proof -
  have t: "CACHE_TTL \<le> 1000000" by (simp add: CACHE_TTL_def)
  have d: "distinct (map fst (sockets srv_live))" by (simp add: srv_live_def srv0_def)
  have hx: "hex64 tok_a" "hex64 tok_b" "hex64 tok_c" "hex64 tok_d"
    by (simp_all add: hex64_def is_hex_def fixture_defs)
  have rt: "fst (readTokens 1000000 file0 fresh) = [dev_a, dev_b, dev_c]"
    by (simp add: readTokens_def file0_def fresh_def Let_def)
  have fa: "find (\<lambda>t. token t = tok_a) [dev_a, dev_b, dev_c] = Some dev_a"
    and fb: "find (\<lambda>t. token t = tok_b) [dev_a, dev_b, dev_c] = Some dev_b"
    and fc: "find (\<lambda>t. token t = tok_c) [dev_a, dev_b, dev_c] = Some dev_c"
    and fd: "find (\<lambda>t. token t = tok_d) [dev_a, dev_b, dev_c] = None"
    by (simp_all add: fixture_defs)
  have va: "fst (validateToken 1000000 file0 fresh (JStr tok_a)) = Valid dev_a"
    using hx fa by (simp add: validate_found rt dev_a_def)
  have vb: "fst (validateToken 1000000 file0 fresh (JStr tok_b)) = Invalid TOKEN_REVOKED"
    using hx fb by (simp add: validate_found rt dev_b_def)
  have vc: "fst (validateToken 1000000 file0 fresh (JStr tok_c)) = Invalid TOKEN_EXPIRED"
    using hx fc by (simp add: validate_found rt dev_c_def)
  have vd: "fst (validateToken 1000000 file0 fresh (JStr tok_d)) = Invalid TOKEN_NOT_FOUND"
    using hx fd by (simp add: validate_not_found rt)
  have ra: "revocation 1000000 file0 (''s1'', sock_of tok_a) = []"
    by (simp add: revocation_def sock_of_def va)
  have rb: "revocation 1000000 file0 (''s2'', sock_of tok_b)
      = [(''s2'', Emit (AuthRevoked TOKEN_REVOKED 1000000)), (''s2'', Disconnect)]"
    by (simp add: revocation_def sock_of_def vb)
  have rc: "revocation 1000000 file0 (''s3'', sock_of tok_c)
      = [(''s3'', Emit (AuthRevoked TOKEN_EXPIRED 1000000)), (''s3'', Disconnect)]"
    by (simp add: revocation_def sock_of_def vc)
  have rd: "revocation 1000000 file0 (''s4'', sock_of tok_d)
      = [(''s4'', Emit (AuthRevoked TOKEN_NOT_FOUND 1000000)), (''s4'', Disconnect)]"
    by (simp add: revocation_def sock_of_def vd)
  have s: "sockets srv_live = [(''s1'', sock_of tok_a), (''s2'', sock_of tok_b),
                               (''s3'', sock_of tok_c), (''s4'', sock_of tok_d)]"
    and w: "wire srv_live = []"
    by (simp_all add: srv_live_def srv0_def)
  from revocation_sweep[OF t d, where tf = file0] t d show ?thesis
    by (simp add: s w ra rb rc rd)
qed

section \<open>Verification: the manifests\<close>

lemma entry_keys:
  "obj_keys (manifest_entry p) = [''id'', ''filename'', ''size'', ''modified'', ''width'', ''height'']"
  by (simp add: manifest_entry_def)

lemma p2p_entry_keys:
  "obj_keys (p2p_manifest_entry p)
     = [''id'', ''name'', ''size'', ''width'', ''height'', ''modified'', ''created'']"
  by (simp add: p2p_manifest_entry_def)

lemma sort_mset_cong:
  fixes xs ys :: "string list"
  assumes "mset xs = mset ys"
  shows "sort xs = sort ys"
proof -
  have "sorted_list_of_multiset (mset xs) = sorted_list_of_multiset (mset ys)"
    by (simp only: assms)
  then show ?thesis by (simp only: sorted_list_of_multiset_mset)
qed

lemma sorted_ids_perm:
  assumes "mset (map id' ps) = mset (map id' qs)"
  shows "sorted_ids ps = sorted_ids qs"
  unfolding sorted_ids_def by (simp only: sort_mset_cong[OF assms])

text \<open>
  Claim C1, as the code has it. The Streaming acknowledgment holds one entry per catalogue
  record, in catalogue order, each with exactly the properties id, filename, size,
  modified, width, height and never the path, and its hash is the MD5 of the catalogue's
  ids concatenated in sorted order, so it is the same for any two catalogues with the
  same ids, whatever their order. The P2P manifest message also holds one entry per
  record and never the path, but its entries are built with the properties id, name,
  size, width, height, modified, created (no filename), and the message is just type,
  photos and count: no hash accompanies it.
\<close>

theorem manifest_contents:
  "get_prop (handleManifestRequest md5 now photos) ''photos'' = JArr (map manifest_entry photos)
   \<and> get_prop (handleManifestRequest md5 now photos) ''count'' = JNum (int (length photos))
   \<and> (\<forall>e \<in> set (elements (get_prop (handleManifestRequest md5 now photos) ''photos'')).
        set (obj_keys e) = {''id'', ''filename'', ''size'', ''modified'', ''width'', ''height''}
        \<and> ''path'' \<notin> set (obj_keys e))
   \<and> get_prop (handleManifestRequest md5 now photos) ''hash''
       = JStr (md5 (concat (sort (map id' photos))))
   \<and> sorted (sort (map id' photos))
   \<and> (mset (map id' qs) = mset (map id' photos) \<longrightarrow>
        get_prop (handleManifestRequest md5 now' qs) ''hash''
          = get_prop (handleManifestRequest md5 now photos) ''hash'')
   \<and> get_prop (sendManifest photos) ''photos'' = JArr (map p2p_manifest_entry photos)
   \<and> get_prop (sendManifest photos) ''count'' = JNum (int (length photos))
   \<and> (\<forall>e \<in> set (elements (get_prop (sendManifest photos) ''photos'')).
        set (obj_keys e)
          = {''id'', ''name'', ''size'', ''width'', ''height'', ''modified'', ''created''}
        \<and> ''path'' \<notin> set (obj_keys e) \<and> ''filename'' \<notin> set (obj_keys e))
   \<and> obj_keys (sendManifest photos) = [''type'', ''photos'', ''count'']"
proof -
  have h: "mset (map id' qs) = mset (map id' photos) \<longrightarrow>
        get_prop (handleManifestRequest md5 now' qs) ''hash''
          = get_prop (handleManifestRequest md5 now photos) ''hash''"
  proof
    assume "mset (map id' qs) = mset (map id' photos)"
    then have "sorted_ids qs = sorted_ids photos" by (rule sorted_ids_perm)
    then show "get_prop (handleManifestRequest md5 now' qs) ''hash''
          = get_prop (handleManifestRequest md5 now photos) ''hash''"
      by (simp add: handleManifestRequest_def Let_def)
  qed
  have r: "get_prop (handleManifestRequest md5 now photos) ''photos'' = JArr (map manifest_entry photos)"
    "get_prop (handleManifestRequest md5 now photos) ''count'' = JNum (int (length photos))"
    "get_prop (handleManifestRequest md5 now photos) ''hash''
       = JStr (md5 (concat (sort (map id' photos))))"
    by (simp_all add: handleManifestRequest_def Let_def sorted_ids_def)
  have p: "get_prop (sendManifest photos) ''photos'' = JArr (map p2p_manifest_entry photos)"
    "get_prop (sendManifest photos) ''count'' = JNum (int (length photos))"
    "obj_keys (sendManifest photos) = [''type'', ''photos'', ''count'']"
    by (simp_all add: sendManifest_def Let_def)
  have e1: "\<forall>e \<in> set (elements (get_prop (handleManifestRequest md5 now photos) ''photos'')).
        set (obj_keys e) = {''id'', ''filename'', ''size'', ''modified'', ''width'', ''height''}
        \<and> ''path'' \<notin> set (obj_keys e)"
    unfolding r by (auto simp: entry_keys)
  have e2: "\<forall>e \<in> set (elements (get_prop (sendManifest photos) ''photos'')).
        set (obj_keys e)
          = {''id'', ''name'', ''size'', ''width'', ''height'', ''modified'', ''created''}
        \<and> ''path'' \<notin> set (obj_keys e) \<and> ''filename'' \<notin> set (obj_keys e)"
    unfolding p by (auto simp: p2p_entry_keys)
  from h r p e1 e2 show ?thesis by simp
qed

lemma sorted_ids_sample:
  "sorted_ids [photo1, photo2, photo3] = ''00aa11bb22cc33dd0123456789abcdefffee11bb22cc33dd''"
  by code_simp

text \<open>On the sample catalogue, with list reversal standing in for MD5.\<close>

theorem manifest_contents_witness:
  "manifest_entry photo2 \<in> set (elements (get_prop (handleManifestRequest rev 5 [photo1, photo2, photo3]) ''photos''))
   \<and> set (obj_keys (manifest_entry photo2))
       = {''id'', ''filename'', ''size'', ''modified'', ''width'', ''height''}
   \<and> mset (map id' [photo3, photo1, photo2]) = mset (map id' [photo1, photo2, photo3])
   \<and> get_prop (handleManifestRequest rev 9 [photo3, photo1, photo2]) ''hash''
       = JStr (rev ''00aa11bb22cc33dd0123456789abcdefffee11bb22cc33dd'')
   \<and> get_prop (handleManifestRequest rev 5 [photo1, photo2, photo3]) ''hash''
       = JStr (rev ''00aa11bb22cc33dd0123456789abcdefffee11bb22cc33dd'')
   \<and> p2p_manifest_entry photo2 \<in> set (elements (get_prop (sendManifest [photo1, photo2, photo3]) ''photos''))
   \<and> ''filename'' \<notin> set (obj_keys (p2p_manifest_entry photo2))"
proof -
  let ?ps = "[photo1, photo2, photo3]"
  let ?qs = "[photo3, photo1, photo2]"
  note T = manifest_contents[of rev 5 ?ps ?qs 9]
  note t1 = T[THEN conjunct1]
  note t3 = T[THEN conjunct2, THEN conjunct2, THEN conjunct1]
  note t4 = T[THEN conjunct2, THEN conjunct2, THEN conjunct2, THEN conjunct1]
  note t6 = T[THEN conjunct2, THEN conjunct2, THEN conjunct2, THEN conjunct2, THEN conjunct2,
              THEN conjunct1]
  note t7 = T[THEN conjunct2, THEN conjunct2, THEN conjunct2, THEN conjunct2, THEN conjunct2,
              THEN conjunct2, THEN conjunct1]
  note t9 = T[THEN conjunct2, THEN conjunct2, THEN conjunct2, THEN conjunct2, THEN conjunct2,
              THEN conjunct2, THEN conjunct2, THEN conjunct2, THEN conjunct1]
  have m: "mset (map id' ?qs) = mset (map id' ?ps)"
    by (simp add: photo1_def photo2_def photo3_def)
  have a: "manifest_entry photo2 \<in> set (elements (get_prop (handleManifestRequest rev 5 ?ps) ''photos''))"
    unfolding t1 by simp
  have b: "p2p_manifest_entry photo2 \<in> set (elements (get_prop (sendManifest ?ps) ''photos''))"
    unfolding t7 by simp
  note k1 = t3[rule_format, OF a, THEN conjunct1]
  note k2 = t9[rule_format, OF b, THEN conjunct2, THEN conjunct2]
  have h1: "get_prop (handleManifestRequest rev 5 ?ps) ''hash''
       = JStr (rev ''00aa11bb22cc33dd0123456789abcdefffee11bb22cc33dd'')"
    unfolding t4 sorted_ids_sample[unfolded sorted_ids_def] by (rule refl)
  have h2: "get_prop (handleManifestRequest rev 9 ?qs) ''hash''
       = JStr (rev ''00aa11bb22cc33dd0123456789abcdefffee11bb22cc33dd'')"
    using t6[rule_format, OF m] h1 by (rule trans)
  show ?thesis
    by (intro conjI) (rule a k1 m h2 h1 b k2)+
qed

text \<open>
  Claim C1 as stated fails on the P2P transport: for a catalogue of one photo the manifest
  message has no hash, and its entry has the properties id, name, size, width, height,
  modified, created; what reaches the peer after \<open>JSON.stringify\<close> is id, size, width,
  height, modified. Neither has a filename.
\<close>

theorem p2p_manifest_differs:
  "obj_keys (sendManifest [photo1]) = [''type'', ''photos'', ''count'']
   \<and> get_prop (sendManifest [photo1]) ''hash'' = JUndefined
   \<and> map obj_keys (elements (get_prop (sendManifest [photo1]) ''photos''))
       = [[''id'', ''name'', ''size'', ''width'', ''height'', ''modified'', ''created'']]
   \<and> map obj_keys (elements (get_prop (json_roundtrip (sendManifest [photo1])) ''photos''))
       = [[''id'', ''size'', ''width'', ''height'', ''modified'']]"
  by (simp add: sendManifest_def p2p_manifest_entry_def)

section \<open>Verification: the rendition cache and compressed delivery\<close>

lemma compress_mem_hit:
  assumes "compressionCache c (getCacheKey i q d) = Some b"
  shows "compressImage e f q d i c
    = (Inr b, c\<lparr>ops := ops c @ [MemHas (getCacheKey i q d), MemGet (getCacheKey i q d)]\<rparr>)"
  using assms by (simp add: compressImage_def Let_def logop_def)

lemma compress_disk_hit:
  assumes "compressionCache c (getCacheKey i q d) = None"
    and "disk c (cacheFilePath (getCacheKey i q d)) = Some b"
  shows "compressImage e f q d i c
    = (Inr b, c\<lparr>compressionCache := (compressionCache c)(getCacheKey i q d \<mapsto> b),
              ops := ops c @ [MemHas (getCacheKey i q d),
                              DiskExists (cacheFilePath (getCacheKey i q d)),
                              DiskRead (cacheFilePath (getCacheKey i q d)),
                              MemSet (getCacheKey i q d)]\<rparr>)"
  using assms by (simp add: compressImage_def Let_def logop_def)

lemma compress_sharp_fails:
  assumes "compressionCache c (getCacheKey i q d) = None"
    and "disk c (cacheFilePath (getCacheKey i q d)) = None"
    and "(case disk c f of None \<Rightarrow> None | Some src \<Rightarrow> resample e src q d) = None"
  shows "compressImage e f q d i c
    = (Inl SharpFailed, c\<lparr>ops := ops c @ [MemHas (getCacheKey i q d),
                              DiskExists (cacheFilePath (getCacheKey i q d)),
                              Resample f]\<rparr>)"
  using assms by (simp add: compressImage_def Let_def logop_def)

lemma compress_computed:
  assumes "compressionCache c (getCacheKey i q d) = None"
    and "disk c (cacheFilePath (getCacheKey i q d)) = None"
    and "(case disk c f of None \<Rightarrow> None | Some src \<Rightarrow> resample e src q d) = Some b"
    and "can_write e (cacheFilePath (getCacheKey i q d))"
  shows "compressImage e f q d i c
    = (Inr b, c\<lparr>compressionCache := (compressionCache c)(getCacheKey i q d \<mapsto> b),
              disk := (disk c)(cacheFilePath (getCacheKey i q d) \<mapsto> b),
              ops := ops c @ [MemHas (getCacheKey i q d),
                              DiskExists (cacheFilePath (getCacheKey i q d)),
                              Resample f,
                              MemSet (getCacheKey i q d),
                              Mkdir CACHE_DIRECTORY,
                              DiskWrite (cacheFilePath (getCacheKey i q d))]\<rparr>)"
  using assms by (simp add: compressImage_def Let_def logop_def)

lemma compress_write_fails:
  assumes "compressionCache c (getCacheKey i q d) = None"
    and "disk c (cacheFilePath (getCacheKey i q d)) = None"
    and "(case disk c f of None \<Rightarrow> None | Some src \<Rightarrow> resample e src q d) = Some b"
    and "\<not> can_write e (cacheFilePath (getCacheKey i q d))"
  shows "compressImage e f q d i c
    = (Inl WriteFailed, c\<lparr>compressionCache := (compressionCache c)(getCacheKey i q d \<mapsto> b),
              ops := ops c @ [MemHas (getCacheKey i q d),
                              DiskExists (cacheFilePath (getCacheKey i q d)),
                              Resample f,
                              MemSet (getCacheKey i q d),
                              Mkdir CACHE_DIRECTORY]\<rparr>)"
  using assms by (simp add: compressImage_def Let_def logop_def)

lemma compress_cases:
  obtains (mem) b where "compressionCache c (getCacheKey i q d) = Some b"
  | (dsk) b where "compressionCache c (getCacheKey i q d) = None"
      "disk c (cacheFilePath (getCacheKey i q d)) = Some b"
  | (fail) "compressionCache c (getCacheKey i q d) = None"
      "disk c (cacheFilePath (getCacheKey i q d)) = None"
      "(case disk c f of None \<Rightarrow> None | Some src \<Rightarrow> resample e src q d) = None"
  | (new) b where "compressionCache c (getCacheKey i q d) = None"
      "disk c (cacheFilePath (getCacheKey i q d)) = None"
      "(case disk c f of None \<Rightarrow> None | Some src \<Rightarrow> resample e src q d) = Some b"
      "can_write e (cacheFilePath (getCacheKey i q d))"
  | (nowrite) b where "compressionCache c (getCacheKey i q d) = None"
      "disk c (cacheFilePath (getCacheKey i q d)) = None"
      "(case disk c f of None \<Rightarrow> None | Some src \<Rightarrow> resample e src q d) = Some b"
      "\<not> can_write e (cacheFilePath (getCacheKey i q d))"
  by (cases "compressionCache c (getCacheKey i q d)";
      cases "disk c (cacheFilePath (getCacheKey i q d))";
      cases "(case disk c f of None \<Rightarrow> None | Some src \<Rightarrow> resample e src q d)";
      cases "can_write e (cacheFilePath (getCacheKey i q d))") auto

lemma compress_mem_kept:
  assumes "compressionCache c k = Some b"
  shows "compressionCache (snd (compressImage e f q d i c)) k = Some b"
proof (cases rule: compress_cases[where c=c and i=i and q=q and d=d and f=f and e=e])
  case (mem b') then show ?thesis using assms by (simp add: compress_mem_hit)
next
  case (dsk b') then show ?thesis using assms by (auto simp: compress_disk_hit)
next
  case fail then show ?thesis using assms by (simp add: compress_sharp_fails)
next
  case (new b') then show ?thesis using assms by (auto simp: compress_computed)
next
  case (nowrite b') then show ?thesis using assms by (auto simp: compress_write_fails)
qed

lemma compress_disk_kept:
  assumes "disk c x = Some v"
  shows "disk (snd (compressImage e f q d i c)) x = Some v"
proof (cases rule: compress_cases[where c=c and i=i and q=q and d=d and f=f and e=e])
  case (mem b') then show ?thesis using assms by (simp add: compress_mem_hit)
next
  case (dsk b') then show ?thesis using assms by (auto simp: compress_disk_hit)
next
  case fail then show ?thesis using assms by (simp add: compress_sharp_fails)
next
  case (new b') then show ?thesis using assms by (auto simp: compress_computed)
next
  case (nowrite b') then show ?thesis using assms by (auto simp: compress_write_fails)
qed

lemma compress_result_cached:
  assumes "fst (compressImage e f q d i c) = Inr b"
  shows "compressionCache (snd (compressImage e f q d i c)) (getCacheKey i q d) = Some b"
proof (cases rule: compress_cases[where c=c and i=i and q=q and d=d and f=f and e=e])
  case (mem b') then show ?thesis using assms by (simp add: compress_mem_hit)
next
  case (dsk b') then show ?thesis using assms by (auto simp: compress_disk_hit)
next
  case fail then show ?thesis using assms by (simp add: compress_sharp_fails)
next
  case (new b') then show ?thesis using assms by (auto simp: compress_computed)
next
  case (nowrite b') then show ?thesis using assms by (auto simp: compress_write_fails)
qed

lemma compress_all_mem_kept:
  "compressionCache c k = Some b \<Longrightarrow> compressionCache (compress_all e calls c) k = Some b"
proof (induction calls arbitrary: c)
  case Nil then show ?case by simp
next
  case (Cons a calls)
  obtain f q d i where a: "a = (f, q, d, i)" by (cases a) auto
  show ?case unfolding a using Cons.IH[OF compress_mem_kept[OF Cons.prems]] by simp
qed

lemma emit_connected: "sid \<in> set (connected t) \<Longrightarrow> emit sid ev t = t\<lparr>emitted := emitted t @ [(sid, ev)]\<rparr>"
  by (simp add: emit_def)

lemma emit_connected_same [simp]: "connected (emit sid ev t) = connected t"
  by (simp add: emit_def)

lemma emit_fields [simp]: "rcache (emit sid ev t) = rcache t" "database (emit sid ev t) = database t"
  by (simp_all add: emit_def)

lemma pcp_not_found:
  "getPhoto (database t) (photoId j) = None \<Longrightarrow>
   processCompressedPhoto e j t = (Inl (NotInDatabase (photoId j)), t)"
  by (simp add: processCompressedPhoto_def)

lemma pcp_not_on_disk:
  "getPhoto (database t) (photoId j) = Some ph \<Longrightarrow> disk (rcache t) (path ph) = None \<Longrightarrow>
   processCompressedPhoto e j t = (Inl (NotOnDisk (path ph)), t)"
  by (simp add: processCompressedPhoto_def)

lemma pcp_compress_fails:
  "getPhoto (database t) (photoId j) = Some ph \<Longrightarrow> disk (rcache t) (path ph) = Some src \<Longrightarrow>
   compressImage e (path ph) (quality j) (maxDimension j) (photoId j) (rcache t) = (Inl err, c) \<Longrightarrow>
   processCompressedPhoto e j t = (Inl err, t\<lparr>rcache := c\<rparr>)"
  by (simp add: processCompressedPhoto_def)

lemma pcp_delivers:
  "getPhoto (database t) (photoId j) = Some ph \<Longrightarrow> disk (rcache t) (path ph) = Some src \<Longrightarrow>
   compressImage e (path ph) (quality j) (maxDimension j) (photoId j) (rcache t) = (Inr buf, c) \<Longrightarrow>
   socketId j \<in> set (connected t) \<Longrightarrow>
   processCompressedPhoto e j t = (Inr (),
      t\<lparr>rcache := c,
        emitted := emitted t @
          [(socketId j, PhotoData (photoId j) buf (length buf) (md5_of e buf) ''image/jpeg''),
           (socketId j, PhotoComplete (photoId j) (length buf) (md5_of e buf))]\<rparr>)"
  by (simp add: processCompressedPhoto_def Let_def emit_connected)

lemma pcp_success_shape:
  assumes ok: "processCompressedPhoto e j t = (Inr (), t1)"
    and conn: "socketId j \<in> set (connected t)"
  obtains ph src buf c where
    "getPhoto (database t) (photoId j) = Some ph" "disk (rcache t) (path ph) = Some src"
    "compressImage e (path ph) (quality j) (maxDimension j) (photoId j) (rcache t) = (Inr buf, c)"
    "t1 = t\<lparr>rcache := c,
        emitted := emitted t @
          [(socketId j, PhotoData (photoId j) buf (length buf) (md5_of e buf) ''image/jpeg''),
           (socketId j, PhotoComplete (photoId j) (length buf) (md5_of e buf))]\<rparr>"
proof (cases "getPhoto (database t) (photoId j)")
  case None
  with ok show ?thesis by (simp add: pcp_not_found)
next
  case (Some ph)
  show ?thesis
  proof (cases "disk (rcache t) (path ph)")
    case None
    with ok Some show ?thesis by (simp add: pcp_not_on_disk)
  next
    case src: (Some src)
    obtain r c where rc: "compressImage e (path ph) (quality j) (maxDimension j) (photoId j) (rcache t) = (r, c)"
      by (cases "compressImage e (path ph) (quality j) (maxDimension j) (photoId j) (rcache t)")
    show ?thesis
    proof (cases r)
      case (Inl err)
      with ok Some src rc show ?thesis by (simp add: pcp_compress_fails)
    next
      case (Inr buf)
      have "processCompressedPhoto e j t = (Inr (),
         t\<lparr>rcache := c,
          emitted := emitted t @
          [(socketId j, PhotoData (photoId j) buf (length buf) (md5_of e buf) ''image/jpeg''),
           (socketId j, PhotoComplete (photoId j) (length buf) (md5_of e buf))]\<rparr>)"
        using Some src rc Inr conn by (simp add: pcp_delivers)
      with ok have "t1 = t\<lparr>rcache := c,
          emitted := emitted t @
          [(socketId j, PhotoData (photoId j) buf (length buf) (md5_of e buf) ''image/jpeg''),
           (socketId j, PhotoComplete (photoId j) (length buf) (md5_of e buf))]\<rparr>" by simp
      with Some src rc Inr that show ?thesis by blast
    qed
  qed
qed

text \<open>
  Claim C7, as the code has it. A cache call computes the key and looks in the memory map
  first; on a miss it looks for the file at the key's path and, when the file is there,
  reads it and puts it in the memory map; only when both miss is the rendition computed.
  A computed rendition is put in the memory map first, and the directory is made and the
  file written after that; when the write fails the call fails with the entry already in
  the memory map. Whatever the call does, an entry of the memory map and a file on disk
  that existed before are still there afterwards, with the same bytes.
\<close>

theorem cache_lookup_order:
  assumes k: "k = getCacheKey i q d" and p: "p = cacheFilePath k"
    and r: "r = compressImage e f q d i c"
    and s: "rendition = (case disk c f of None \<Rightarrow> None | Some src \<Rightarrow> resample e src q d)"
  shows
   "(case compressionCache c k of
       Some b \<Rightarrow> r = (Inr b, c\<lparr>ops := ops c @ [MemHas k, MemGet k]\<rparr>)
     | None \<Rightarrow>
        (case disk c p of
           Some b \<Rightarrow>
             r = (Inr b, c\<lparr>compressionCache := (compressionCache c)(k \<mapsto> b),
                           ops := ops c @ [MemHas k, DiskExists p, DiskRead p, MemSet k]\<rparr>)
         | None \<Rightarrow>
            (case rendition of
               None \<Rightarrow> r = (Inl SharpFailed,
                              c\<lparr>ops := ops c @ [MemHas k, DiskExists p, Resample f]\<rparr>)
             | Some b \<Rightarrow>
                 if can_write e p
                 then r = (Inr b, c\<lparr>compressionCache := (compressionCache c)(k \<mapsto> b),
                                    disk := (disk c)(p \<mapsto> b),
                                    ops := ops c @ [MemHas k, DiskExists p, Resample f, MemSet k,
                                                    Mkdir CACHE_DIRECTORY, DiskWrite p]\<rparr>)
                 else r = (Inl WriteFailed,
                           c\<lparr>compressionCache := (compressionCache c)(k \<mapsto> b),
                             ops := ops c @ [MemHas k, DiskExists p, Resample f, MemSet k,
                                             Mkdir CACHE_DIRECTORY]\<rparr>))))
    \<and> (\<forall>k' b'. compressionCache c k' = Some b' \<longrightarrow> compressionCache (snd r) k' = Some b')
    \<and> (\<forall>x v. disk c x = Some v \<longrightarrow> disk (snd r) x = Some v)"
proof -
  have A: "case compressionCache c k of
       Some b \<Rightarrow> r = (Inr b, c\<lparr>ops := ops c @ [MemHas k, MemGet k]\<rparr>)
     | None \<Rightarrow>
        (case disk c p of
           Some b \<Rightarrow>
             r = (Inr b, c\<lparr>compressionCache := (compressionCache c)(k \<mapsto> b),
                           ops := ops c @ [MemHas k, DiskExists p, DiskRead p, MemSet k]\<rparr>)
         | None \<Rightarrow>
            (case rendition of
               None \<Rightarrow> r = (Inl SharpFailed,
                              c\<lparr>ops := ops c @ [MemHas k, DiskExists p, Resample f]\<rparr>)
             | Some b \<Rightarrow>
                 if can_write e p
                 then r = (Inr b, c\<lparr>compressionCache := (compressionCache c)(k \<mapsto> b),
                                    disk := (disk c)(p \<mapsto> b),
                                    ops := ops c @ [MemHas k, DiskExists p, Resample f, MemSet k,
                                                    Mkdir CACHE_DIRECTORY, DiskWrite p]\<rparr>)
                 else r = (Inl WriteFailed,
                           c\<lparr>compressionCache := (compressionCache c)(k \<mapsto> b),
                             ops := ops c @ [MemHas k, DiskExists p, Resample f, MemSet k,
                                             Mkdir CACHE_DIRECTORY]\<rparr>)))"
  proof (cases rule: compress_cases[where c=c and i=i and q=q and d=d and f=f and e=e])
    case (mem b) then show ?thesis unfolding k p r s by (simp add: compress_mem_hit)
  next
    case (dsk b) then show ?thesis unfolding k p r s by (simp add: compress_disk_hit)
  next
    case fail then show ?thesis unfolding k p r s by (simp add: compress_sharp_fails)
  next
    case (new b) then show ?thesis unfolding k p r s by (simp add: compress_computed)
  next
    case (nowrite b) then show ?thesis unfolding k p r s by (simp add: compress_write_fails)
  qed
  have B: "\<forall>k' b'. compressionCache c k' = Some b' \<longrightarrow> compressionCache (snd r) k' = Some b'"
    unfolding r by (simp add: compress_mem_kept)
  have C: "\<forall>x v. disk c x = Some v \<longrightarrow> disk (snd r) x = Some v"
    unfolding r by (simp add: compress_disk_kept)
  from A B C show ?thesis by (intro conjI)
qed

text \<open>
  Claim C4. A compressed job that delivers sends its payload with the checksum
  \<open>md5\<close> of exactly those bytes and their length, then the completion marker with
  the same checksum. Every later compressed job for the same photo, quality and
  dimension, whatever other renditions were computed in between and whatever the encoder
  would now produce, delivers as long as the photo is in the catalogue and its file on
  disk, and what it delivers is the same bytes, again with their checksum.
\<close>

theorem compressed_delivery:
  assumes ok: "processCompressedPhoto e j t = (Inr (), t1)"
    and conn: "socketId j \<in> set (connected t)"
  shows "\<exists>buf.
      emitted t1 = emitted t @
        [(socketId j, PhotoData (photoId j) buf (length buf) (md5_of e buf) ''image/jpeg''),
         (socketId j, PhotoComplete (photoId j) (length buf) (md5_of e buf))]
    \<and> (\<forall>e' e'' calls j' t2 ph src.
          photoId j' = photoId j \<and> quality j' = quality j \<and> maxDimension j' = maxDimension j
          \<and> compress_all e'' calls (rcache t1) = rcache t2
          \<and> socketId j' \<in> set (connected t2)
          \<and> getPhoto (database t2) (photoId j) = Some ph
          \<and> disk (rcache t2) (path ph) = Some src
          \<longrightarrow> fst (processCompressedPhoto e' j' t2) = Inr ()
            \<and> emitted (snd (processCompressedPhoto e' j' t2)) = emitted t2 @
                [(socketId j', PhotoData (photoId j) buf (length buf) (md5_of e' buf) ''image/jpeg''),
                 (socketId j', PhotoComplete (photoId j) (length buf) (md5_of e' buf))])"
proof -
  from ok conn obtain ph src buf c where
    g: "getPhoto (database t) (photoId j) = Some ph" "disk (rcache t) (path ph) = Some src"
    and ci: "compressImage e (path ph) (quality j) (maxDimension j) (photoId j) (rcache t) = (Inr buf, c)"
    and t1: "t1 = t\<lparr>rcache := c,
        emitted := emitted t @
          [(socketId j, PhotoData (photoId j) buf (length buf) (md5_of e buf) ''image/jpeg''),
           (socketId j, PhotoComplete (photoId j) (length buf) (md5_of e buf))]\<rparr>"
    by (rule pcp_success_shape)
  have cached: "compressionCache (rcache t1) (getCacheKey (photoId j) (quality j) (maxDimension j)) = Some buf"
    using compress_result_cached[of e "path ph" "quality j" "maxDimension j" "photoId j" "rcache t" buf] ci
    by (simp add: t1)
  have em: "emitted t1 = emitted t @
        [(socketId j, PhotoData (photoId j) buf (length buf) (md5_of e buf) ''image/jpeg''),
         (socketId j, PhotoComplete (photoId j) (length buf) (md5_of e buf))]"
    by (simp add: t1)
  have rep: "fst (processCompressedPhoto e' j' t2) = Inr ()
            \<and> emitted (snd (processCompressedPhoto e' j' t2)) = emitted t2 @
                [(socketId j', PhotoData (photoId j) buf (length buf) (md5_of e' buf) ''image/jpeg''),
                 (socketId j', PhotoComplete (photoId j) (length buf) (md5_of e' buf))]"
    if h: "photoId j' = photoId j \<and> quality j' = quality j \<and> maxDimension j' = maxDimension j
          \<and> compress_all e'' calls (rcache t1) = rcache t2
          \<and> socketId j' \<in> set (connected t2)
          \<and> getPhoto (database t2) (photoId j) = Some ph'
          \<and> disk (rcache t2) (path ph') = Some src'"
    for e' e'' calls j' t2 ph' src'
  proof -
    have m: "compressionCache (rcache t2) (getCacheKey (photoId j') (quality j') (maxDimension j')) = Some buf"
      using h compress_all_mem_kept[OF cached, of e'' calls] by simp
    have ci': "compressImage e' (path ph') (quality j') (maxDimension j') (photoId j') (rcache t2)
        = (Inr buf, (rcache t2)\<lparr>ops := ops (rcache t2) @
             [MemHas (getCacheKey (photoId j') (quality j') (maxDimension j')),
              MemGet (getCacheKey (photoId j') (quality j') (maxDimension j'))]\<rparr>)"
      by (rule compress_mem_hit[OF m])
    have g': "getPhoto (database t2) (photoId j') = Some ph'" "disk (rcache t2) (path ph') = Some src'"
      "socketId j' \<in> set (connected t2)"
      using h by simp_all
    show ?thesis
      unfolding pcp_delivers[OF g'(1) g'(2) ci' g'(3)] using h by simp
  qed
  show ?thesis
    using em rep by blast
qed

theorem cache_lookup_order_witness:
  "compressionCache cache1 (getCacheKey (id' photo1) 50 2) = Some [0xFF, 0xD8]
   \<and> compressImage env0 (path photo1) 50 2 (id' photo1) cache1
       = (Inr [0xFF, 0xD8],
          cache1\<lparr>ops := ops cache1 @ [MemHas (getCacheKey (id' photo1) 50 2),
                                        MemGet (getCacheKey (id' photo1) 50 2)]\<rparr>)
   \<and> compressionCache (snd (compressImage env0 (path photo3) 50 2 (id' photo3) cache1))
        (getCacheKey (id' photo1) 50 2) = Some [0xFF, 0xD8]
   \<and> disk cache1 (path photo1) = Some [0xFF, 0xD8, 1, 2, 3]
   \<and> disk (snd (compressImage env0 (path photo3) 50 2 (id' photo3) cache1)) (path photo1)
       = Some [0xFF, 0xD8, 1, 2, 3]"
proof -
  have m: "compressionCache cache1 (getCacheKey (id' photo1) 50 2) = Some [0xFF, 0xD8]"
    by code_simp
  have d: "disk cache1 (path photo1) = Some [0xFF, 0xD8, 1, 2, 3]"
    by code_simp
  note A = cache_lookup_order[OF refl refl refl refl,
      where i = "id' photo1" and q = 50 and d = 2 and c = cache1 and e = env0
        and f = "path photo1"]
  note B = cache_lookup_order[OF refl refl refl refl,
      where i = "id' photo3" and q = 50 and d = 2 and c = cache1 and e = env0
        and f = "path photo3"]
  have a: "compressImage env0 (path photo1) 50 2 (id' photo1) cache1
       = (Inr [0xFF, 0xD8],
          cache1\<lparr>ops := ops cache1 @ [MemHas (getCacheKey (id' photo1) 50 2),
                                        MemGet (getCacheKey (id' photo1) 50 2)]\<rparr>)"
    using A[THEN conjunct1] unfolding m by (simp only: option.case)
  note b1 = B[THEN conjunct2, THEN conjunct1, rule_format, OF m]
  note b2 = B[THEN conjunct2, THEN conjunct2, rule_format, OF d]
  show ?thesis
    by (intro conjI) (rule m a b1 d b2)+
qed

text \<open>
  Claim C7 as stated fails: on a miss the memory entry is set before the directory is made
  and the file written; and when the file cannot be written, the call fails with the
  entry in the memory map and no file on disk.
\<close>

theorem cache_memory_before_disk:
  "ops (snd (compressImage env0 (path photo1) 50 2 (id' photo1) cache0))
     = [MemHas ''00aa11bb22cc33dd_50_2'',
        DiskExists ''.cache/00aa11bb22cc33dd_50_2.jpg'',
        Resample ''/home/u/Pictures/2024/trip/beach.jpg'',
        MemSet ''00aa11bb22cc33dd_50_2'',
        Mkdir ''.cache'',
        DiskWrite ''.cache/00aa11bb22cc33dd_50_2.jpg'']
   \<and> fst (compressImage env_ro (path photo1) 50 2 (id' photo1) cache0) = Inl WriteFailed
   \<and> compressionCache (snd (compressImage env_ro (path photo1) 50 2 (id' photo1) cache0))
        ''00aa11bb22cc33dd_50_2'' = Some [0xFF, 0xD8]
   \<and> disk (snd (compressImage env_ro (path photo1) 50 2 (id' photo1) cache0))
        ''.cache/00aa11bb22cc33dd_50_2.jpg'' = None"
  by code_simp

theorem compressed_delivery_witness:
  "fst (processCompressedPhoto env0 job1 transfer0) = Inr ()
   \<and> socketId job1 \<in> set (connected transfer0)
   \<and> emitted (snd (processCompressedPhoto env0 job1 transfer0))
       = [(''s1'', PhotoData ''00aa11bb22cc33dd'' [0xFF, 0xD8] 2 ''2'' ''image/jpeg''),
          (''s1'', PhotoComplete ''00aa11bb22cc33dd'' 2 ''2'')]
   \<and> getPhoto (database transfer2) (photoId job1) = Some photo1
   \<and> disk (rcache transfer2) (path photo1) = Some [0xFF, 0xD8, 1, 2, 3]
   \<and> fst (processCompressedPhoto env_ro (job1\<lparr>socketId := ''s2''\<rparr>) transfer2) = Inr ()
   \<and> emitted (snd (processCompressedPhoto env_ro (job1\<lparr>socketId := ''s2''\<rparr>) transfer2))
       = [(''s2'', PhotoData ''00aa11bb22cc33dd'' [0xFF, 0xD8] 2 ''2'' ''image/jpeg''),
          (''s2'', PhotoComplete ''00aa11bb22cc33dd'' 2 ''2'')]"
proof -
  let ?t1 = "snd (processCompressedPhoto env0 job1 transfer0)"
  let ?j2 = "job1\<lparr>socketId := ''s2''\<rparr>"
  have ok: "fst (processCompressedPhoto env0 job1 transfer0) = Inr ()" by code_simp
  then have ok': "processCompressedPhoto env0 job1 transfer0 = (Inr (), ?t1)"
    by (simp add: prod_eq_iff)
  have conn: "socketId job1 \<in> set (connected transfer0)"
    by (simp add: job1_def transfer0_def)
  have ev: "emitted ?t1
       = [(''s1'', PhotoData ''00aa11bb22cc33dd'' [0xFF, 0xD8] 2 ''2'' ''image/jpeg''),
          (''s1'', PhotoComplete ''00aa11bb22cc33dd'' 2 ''2'')]"
    by code_simp
  have g: "getPhoto (database transfer2) (photoId job1) = Some photo1"
    by (simp add: transfer2_def transfer0_def job1_def getPhoto_def)
  have dk: "disk (rcache transfer2) (path photo1) = Some [0xFF, 0xD8, 1, 2, 3]"
    by code_simp
  have e0: "emitted transfer0 = []" "emitted transfer2 = []"
    by (simp_all add: transfer0_def transfer2_def)
  have ids: "photoId job1 = ''00aa11bb22cc33dd''" "md5_of env_ro [0xFF, 0xD8] = ''2''"
    by code_simp+
  from compressed_delivery[OF ok' conn] obtain buf where
    b1: "emitted ?t1 = emitted transfer0 @
        [(socketId job1, PhotoData (photoId job1) buf (length buf) (md5_of env0 buf) ''image/jpeg''),
         (socketId job1, PhotoComplete (photoId job1) (length buf) (md5_of env0 buf))]"
    and b2: "\<And>e' e'' calls j' t2 ph src.
          photoId j' = photoId job1 \<and> quality j' = quality job1
          \<and> maxDimension j' = maxDimension job1
          \<and> compress_all e'' calls (rcache ?t1) = rcache t2
          \<and> socketId j' \<in> set (connected t2)
          \<and> getPhoto (database t2) (photoId job1) = Some ph
          \<and> disk (rcache t2) (path ph) = Some src
          \<Longrightarrow> fst (processCompressedPhoto e' j' t2) = Inr ()
            \<and> emitted (snd (processCompressedPhoto e' j' t2)) = emitted t2 @
                [(socketId j', PhotoData (photoId job1) buf (length buf) (md5_of e' buf) ''image/jpeg''),
                 (socketId j', PhotoComplete (photoId job1) (length buf) (md5_of e' buf))]"
    by blast
  have buf: "buf = [0xFF, 0xD8]"
    using b1 unfolding ev e0 by simp
  have h: "photoId ?j2 = photoId job1 \<and> quality ?j2 = quality job1
          \<and> maxDimension ?j2 = maxDimension job1
          \<and> compress_all env0 [(path photo3, 50, 2, id' photo3)] (rcache ?t1) = rcache transfer2
          \<and> socketId ?j2 \<in> set (connected transfer2)
          \<and> getPhoto (database transfer2) (photoId job1) = Some photo1
          \<and> disk (rcache transfer2) (path photo1) = Some [0xFF, 0xD8, 1, 2, 3]"
    using g dk by (simp add: transfer2_def transfer0_def)
  note r = b2[OF h, where e' = env_ro, unfolded buf e0 ids]
  have r1: "fst (processCompressedPhoto env_ro ?j2 transfer2) = Inr ()"
    using r by (rule conjunct1)
  have r2: "emitted (snd (processCompressedPhoto env_ro ?j2 transfer2))
       = [(''s2'', PhotoData ''00aa11bb22cc33dd'' [0xFF, 0xD8] 2 ''2'' ''image/jpeg''),
          (''s2'', PhotoComplete ''00aa11bb22cc33dd'' 2 ''2'')]"
    using r[THEN conjunct2] by simp
  show ?thesis
    by (intro conjI) (rule ok conn ev g dk r1 r2)+
qed

section \<open>Verification: the transfer worker\<close>

lemma inv_new: "worker_inv (new_worker x)" "all_jobs (new_worker x) = []"
  by (simp_all add: worker_inv_def new_worker_def all_jobs_def)

lemma queueJob_idle:
  assumes "worker_inv w" "running w = []"
  shows "queueJob j w = w\<lparr>busy := True, running := [j]\<rparr>"
  using assms by (simp add: worker_inv_def queueJob_def processQueue_def loop_head_def Let_def)

lemma queueJob_busy:
  assumes "worker_inv w" "running w \<noteq> []"
  shows "queueJob j w = w\<lparr>queue := queue w @ [j]\<rparr>"
  using assms by (simp add: worker_inv_def queueJob_def processQueue_def Let_def)

lemma inv_queueJob:
  assumes "worker_inv w"
  shows "worker_inv (queueJob j w)" "all_jobs (queueJob j w) = all_jobs w @ [j]"
proof -
  show "worker_inv (queueJob j w)"
  proof (cases "running w = []")
    case True
    with assms show ?thesis by (simp add: queueJob_idle) (simp add: worker_inv_def)
  next
    case False
    with assms show ?thesis by (simp add: queueJob_busy) (simp add: worker_inv_def)
  qed
  show "all_jobs (queueJob j w) = all_jobs w @ [j]"
  proof (cases "running w = []")
    case True
    with assms have "queue w = []" by (simp add: worker_inv_def)
    with True assms show ?thesis by (simp add: queueJob_idle all_jobs_def)
  next
    case False
    with assms show ?thesis by (simp add: queueJob_busy all_jobs_def)
  qed
qed

lemma job_done_idle: "running w = [] \<Longrightarrow> job_done exec w = w"
  by (simp add: job_done_def)

lemma job_done_last:
  assumes "running w = [j]" "queue w = []"
  shows "job_done exec w = w\<lparr>running := [], settled := settled w @ [(j, fst (exec j (world w)))],
            world := snd (exec j (world w)), busy := False\<rparr>"
  using assms by (simp add: job_done_def loop_head_def split: prod.splits)

lemma job_done_next:
  assumes "running w = [j]" "queue w = j' # q"
  shows "job_done exec w = w\<lparr>running := [j'], settled := settled w @ [(j, fst (exec j (world w)))],
            world := snd (exec j (world w)), queue := q\<rparr>"
  using assms by (simp add: job_done_def loop_head_def split: prod.splits)

lemma inv_running:
  assumes "worker_inv w" "running w \<noteq> []"
  obtains j where "running w = [j]"
  using assms by (cases "running w") (auto simp: worker_inv_def)

lemma inv_job_done:
  assumes "worker_inv w"
  shows "worker_inv (job_done exec w)" "all_jobs (job_done exec w) = all_jobs w"
proof -
  show "worker_inv (job_done exec w)"
  proof (cases "running w = []")
    case True then show ?thesis using assms by (simp add: job_done_idle)
  next
    case False
    with assms obtain j where j: "running w = [j]" by (rule inv_running)
    show ?thesis
    proof (cases "queue w")
      case Nil
      with j assms show ?thesis by (simp add: job_done_last) (simp add: worker_inv_def)
    next
      case (Cons j' q)
      with j assms show ?thesis by (simp add: job_done_next) (simp add: worker_inv_def)
    qed
  qed
  show "all_jobs (job_done exec w) = all_jobs w"
  proof (cases "running w = []")
    case True then show ?thesis by (simp add: job_done_idle)
  next
    case False
    with assms obtain j where j: "running w = [j]" by (rule inv_running)
    show ?thesis
    proof (cases "queue w")
      case Nil
      with j show ?thesis by (simp add: job_done_last all_jobs_def)
    next
      case (Cons j' q)
      with j show ?thesis by (simp add: job_done_next all_jobs_def)
    qed
  qed
qed

lemma inv_step:
  assumes "worker_inv w"
  shows "worker_inv (worker_step exec w ev)"
    "all_jobs (worker_step exec w ev) = all_jobs w @ enqueued [ev]"
  using assms by (cases ev; simp add: inv_queueJob inv_job_done)+

lemma enqueued_append: "enqueued (xs @ ys) = enqueued xs @ enqueued ys"
  by (induction xs rule: enqueued.induct) simp_all

lemma inv_run:
  "worker_inv (worker_run exec x evs) \<and> all_jobs (worker_run exec x evs) = enqueued evs"
proof (induction evs rule: rev_induct)
  case Nil
  show ?case by (simp add: worker_run_def inv_new)
next
  case (snoc ev evs)
  have s: "worker_run exec x (evs @ [ev]) = worker_step exec (worker_run exec x evs) ev"
    by (simp add: worker_run_def)
  from snoc show ?case unfolding s by (simp add: inv_step enqueued_append)
qed

lemma drain_idle: "running w = [] \<Longrightarrow> drain exec w = w"
  by (subst drain.simps) simp

lemma drain_step: "running w \<noteq> [] \<Longrightarrow> drain exec w = drain exec (job_done exec w)"
  by (subst drain.simps) simp

lemma drain_inv:
  assumes "worker_inv w"
  shows "worker_inv (drain exec w) \<and> running (drain exec w) = []
       \<and> all_jobs (drain exec w) = all_jobs w"
  using assms
proof (induction exec w rule: drain.induct)
  case (1 exec w)
  show ?case
  proof (cases "running w = []")
    case True
    with "1.prems" show ?thesis by (simp add: drain_idle)
  next
    case False
    have i: "worker_inv (job_done exec w)" "all_jobs (job_done exec w) = all_jobs w"
      using "1.prems" by (simp_all add: inv_job_done)
    have d: "drain exec w = drain exec (job_done exec w)"
      using False by (rule drain_step)
    from "1.IH"[OF False i(1)] i(2) show ?thesis unfolding d by simp
  qed
qed

text \<open>
  Claim C6. Whatever jobs are queued and whenever they complete, and whatever each job's
  processing does, at most one job is started at any time, and \<open>busy\<close> is set exactly
  while one is; a job waits in the queue only while another is started; the jobs settled
  so far, then the started one, then the queue, are the jobs in the order in which they
  were queued. When the started job completes, with whatever outcome (a rejection
  included), it is settled with that outcome and the head of the queue is started next.
  Left to itself the worker settles every job in queue order and ends idle. This holds
  as long as each started job's processing returns.
\<close>

theorem worker_sequential_fifo:
  assumes w: "w = worker_run exec x evs"
  shows "length (running w) \<le> 1
    \<and> (busy w \<longleftrightarrow> running w \<noteq> [])
    \<and> (queue w \<noteq> [] \<longrightarrow> running w \<noteq> [])
    \<and> map fst (settled w) @ running w @ queue w = enqueued evs
    \<and> (\<forall>j. running w = [j] \<longrightarrow>
          settled (job_done exec w) = settled w @ [(j, fst (exec j (world w)))]
          \<and> running (job_done exec w) = take 1 (queue w)
          \<and> queue (job_done exec w) = drop 1 (queue w))
    \<and> running (drain exec w) = [] \<and> queue (drain exec w) = [] \<and> \<not> busy (drain exec w)
    \<and> map fst (settled (drain exec w)) = enqueued evs"
proof -
  have i: "worker_inv w"
    unfolding w by (rule inv_run[THEN conjunct1])
  have a: "all_jobs w = enqueued evs"
    unfolding w by (rule inv_run[THEN conjunct2])
  have c1a: "length (running w) \<le> 1"
    using i unfolding worker_inv_def by (rule conjunct1)
  have c1b: "busy w \<longleftrightarrow> running w \<noteq> []"
    using i unfolding worker_inv_def by (elim conjE)
  have c1c': "running w = [] \<longrightarrow> queue w = []"
    using i unfolding worker_inv_def by (elim conjE)
  have c1c: "queue w \<noteq> [] \<longrightarrow> running w \<noteq> []"
    using c1c' by blast
  have c2: "map fst (settled w) @ running w @ queue w = enqueued evs"
    using a unfolding all_jobs_def .
  have c3: "\<forall>j. running w = [j] \<longrightarrow>
          settled (job_done exec w) = settled w @ [(j, fst (exec j (world w)))]
          \<and> running (job_done exec w) = take 1 (queue w)
          \<and> queue (job_done exec w) = drop 1 (queue w)"
  proof (intro allI impI)
    fix j assume j: "running w = [j]"
    show "settled (job_done exec w) = settled w @ [(j, fst (exec j (world w)))]
          \<and> running (job_done exec w) = take 1 (queue w)
          \<and> queue (job_done exec w) = drop 1 (queue w)"
    proof (cases "queue w")
      case Nil
      show ?thesis unfolding job_done_last[OF j Nil] by (simp add: Nil)
    next
      case (Cons j' q)
      show ?thesis unfolding job_done_next[OF j Cons] by (simp add: Cons)
    qed
  qed
  note d = drain_inv[OF i, of exec]
  have d1: "worker_inv (drain exec w)" using d by (rule conjunct1)
  have c4a: "running (drain exec w) = []" using d[THEN conjunct2] by (rule conjunct1)
  have d3: "all_jobs (drain exec w) = all_jobs w" using d[THEN conjunct2] by (rule conjunct2)
  have c4b: "queue (drain exec w) = []"
    using d1 c4a unfolding worker_inv_def by blast
  have c4c: "\<not> busy (drain exec w)"
    using d1 c4a unfolding worker_inv_def by blast
  have c5: "map fst (settled (drain exec w)) = enqueued evs"
    using d3 unfolding all_jobs_def c4a c4b a[symmetric, unfolded all_jobs_def] by simp
  from c1a c1b c1c c2 c3 c4a c4b c4c c5 show ?thesis
    by (intro conjI)
qed

text \<open>
  Three jobs: the first fails (its id is not in the catalogue), the second targets a
  socket that has disconnected, the third targets another socket and is delivered.
\<close>

theorem worker_sequential_fifo_witness:
  "running worker3 = [jobx] \<and> queue worker3 = [job1, job3]
   \<and> fst (run_job env0 jobx (world worker3)) = Rejected (NotInDatabase ''ffffffffffffffff'')
   \<and> settled (job_done (run_job env0) worker3)
        = settled worker3 @ [(jobx, Rejected (NotInDatabase ''ffffffffffffffff''))]
   \<and> running (job_done (run_job env0) worker3) = [job1]
   \<and> queue (job_done (run_job env0) worker3) = [job3]
   \<and> map fst (settled (drain (run_job env0) worker3)) = [jobx, job1, job3]
   \<and> map snd (settled (drain (run_job env0) worker3))
        = [Rejected (NotInDatabase ''ffffffffffffffff''), Resolved, Resolved]
   \<and> emitted (world (drain (run_job env0) worker3))
        = [(''s2'', PhotoData ''0123456789abcdef'' [0xFF, 0xD8] 2 ''2'' ''image/jpeg''),
           (''s2'', PhotoComplete ''0123456789abcdef'' 2 ''2'')]"
proof -
  note T = worker_sequential_fifo[OF worker3_def]
  have r: "running worker3 = [jobx]" by code_simp
  have q: "queue worker3 = [job1, job3]" by code_simp
  have o: "fst (run_job env0 jobx (world worker3)) = Rejected (NotInDatabase ''ffffffffffffffff'')"
    by code_simp
  note S = T[THEN conjunct2, THEN conjunct2, THEN conjunct2, THEN conjunct2, THEN conjunct1,
             rule_format, OF r]
  have s1: "settled (job_done (run_job env0) worker3)
        = settled worker3 @ [(jobx, Rejected (NotInDatabase ''ffffffffffffffff''))]"
    using S[THEN conjunct1] unfolding o .
  have s2: "running (job_done (run_job env0) worker3) = [job1]"
    using S[THEN conjunct2, THEN conjunct1] unfolding q by simp
  have s3: "queue (job_done (run_job env0) worker3) = [job3]"
    using S[THEN conjunct2, THEN conjunct2] unfolding q by simp
  have s4: "map fst (settled (drain (run_job env0) worker3)) = [jobx, job1, job3]"
    using T[THEN conjunct2, THEN conjunct2, THEN conjunct2, THEN conjunct2, THEN conjunct2,
            THEN conjunct2, THEN conjunct2, THEN conjunct2]
    by simp
  have s5: "map snd (settled (drain (run_job env0) worker3))
        = [Rejected (NotInDatabase ''ffffffffffffffff''), Resolved, Resolved]"
    by code_simp
  have s6: "emitted (world (drain (run_job env0) worker3))
        = [(''s2'', PhotoData ''0123456789abcdef'' [0xFF, 0xD8] 2 ''2'' ''image/jpeg''),
           (''s2'', PhotoComplete ''0123456789abcdef'' 2 ''2'')]"
    by code_simp
  from r q o s1 s2 s3 s4 s5 s6 show ?thesis by (intro conjI)
qed

section \<open>Verification: a batch with a missing id\<close>




















end
